theory Spec2Isabelle
  imports Complex_Main "HOL-Library.Sublist"
begin

section \<open>Greedy splitter (GreedySplitter.ts)\<close>

text \<open>
  A chunk as the splitters exchange it: the content tags, the text body and the section
  (heading level and root-to-leaf path). String sizes are JavaScript \<open>length\<close>s, that is
  the number of code units of the body; a body is modelled as the list of its units.
\<close>

record Section =
  level :: nat
  path :: "string list"

record Chunk =
  types :: "string list"
  content :: string
  sectionInfo :: Section

text \<open>The three size thresholds held by a \<open>GreedySplitter\<close> instance.\<close>

record GreedySplitter =
  minChunkSize :: nat
  preferredChunkSize :: nat
  maxChunkSize :: nat

definition cloneChunk :: "Chunk \<Rightarrow> Chunk" where
  "cloneChunk chunk =
     \<lparr>types = types chunk, content = content chunk,
      sectionInfo = \<lparr>level = level (sectionInfo chunk), path = path (sectionInfo chunk)\<rparr>\<rparr>"

definition startsNewMajorSection :: "Chunk \<Rightarrow> bool" where
  "startsNewMajorSection chunk \<longleftrightarrow> level (sectionInfo chunk) = 1 \<or> level (sectionInfo chunk) = 2"

text \<open>\<open>parentPath\<close> is a proper prefix of \<open>childPath\<close>.\<close>

definition isPathIncluded :: "string list \<Rightarrow> string list \<Rightarrow> bool" where
  "isPathIncluded parentPath childPath =
     (if length parentPath \<ge> length childPath then False
      else take (length parentPath) childPath = parentPath)"

definition isSameSection :: "Chunk \<Rightarrow> Chunk \<Rightarrow> bool" where
  "isSameSection chunk1 chunk2 =
     (let path1 = path (sectionInfo chunk1); path2 = path (sectionInfo chunk2)
      in if length path1 = length path2 \<and> path1 = path2 then True
         else isPathIncluded path1 path2 \<or> isPathIncluded path2 path1)"

fun findCommonPrefix :: "string list \<Rightarrow> string list \<Rightarrow> string list" where
  "findCommonPrefix (x # xs) (y # ys) = (if x = y then x # findCommonPrefix xs ys else [])"
| "findCommonPrefix _ _ = []"

definition mergeSectionInfo :: "Chunk \<Rightarrow> Chunk \<Rightarrow> Section" where
  "mergeSectionInfo currentChunk nextChunk =
     (let lvl = min (level (sectionInfo currentChunk)) (level (sectionInfo nextChunk))
      in if level (sectionInfo currentChunk) = level (sectionInfo nextChunk)
            \<and> length (path (sectionInfo currentChunk)) = length (path (sectionInfo nextChunk))
            \<and> path (sectionInfo currentChunk) = path (sectionInfo nextChunk)
         then sectionInfo currentChunk
         else if isPathIncluded (path (sectionInfo currentChunk)) (path (sectionInfo nextChunk))
         then \<lparr>level = lvl, path = path (sectionInfo nextChunk)\<rparr>
         else if isPathIncluded (path (sectionInfo nextChunk)) (path (sectionInfo currentChunk))
         then \<lparr>level = lvl, path = path (sectionInfo currentChunk)\<rparr>
         else \<lparr>level = lvl,
               path = findCommonPrefix (path (sectionInfo currentChunk)) (path (sectionInfo nextChunk))\<rparr>)"

text \<open>
  \<open>[...new Set([...currentTypes, ...nextTypes])]\<close>: a JavaScript \<open>Set\<close> keeps the first
  occurrence of each element, in insertion order.
\<close>

fun setOrder :: "'a list \<Rightarrow> 'a list \<Rightarrow> 'a list" where
  "setOrder seen [] = seen"
| "setOrder seen (x # xs) = (if x \<in> set seen then setOrder seen xs else setOrder (seen @ [x]) xs)"

definition mergeTypes :: "string list \<Rightarrow> string list \<Rightarrow> string list" where
  "mergeTypes currentTypes nextTypes = setOrder [] (currentTypes @ nextTypes)"

definition newline :: char where
  "newline = CHR 0x0A"

definition endsWithNewline :: "string \<Rightarrow> bool" where
  "endsWithNewline s \<longleftrightarrow> s \<noteq> [] \<and> last s = newline"

definition separatorSize :: "Chunk \<Rightarrow> nat" where
  "separatorSize currentChunk = (if endsWithNewline (content currentChunk) then 0 else 1)"

definition combinedSize :: "Chunk \<Rightarrow> Chunk \<Rightarrow> nat" where
  "combinedSize currentChunk nextChunk =
     length (content currentChunk) + separatorSize currentChunk + length (content nextChunk)"

text \<open>The three statements at the end of the loop body that merge \<open>nextChunk\<close> into \<open>currentChunk\<close>.\<close>

definition mergeChunks :: "Chunk \<Rightarrow> Chunk \<Rightarrow> Chunk" where
  "mergeChunks currentChunk nextChunk =
     (let c1 = currentChunk\<lparr>content :=
                 content currentChunk
                 @ (if endsWithNewline (content currentChunk) then [] else [newline])
                 @ content nextChunk\<rparr>;
          c2 = c1\<lparr>sectionInfo := mergeSectionInfo c1 nextChunk\<rparr>
      in c2\<lparr>types := mergeTypes (types c2) (types nextChunk)\<rparr>)"

text \<open>
  The \<open>for\<close> loop of \<open>splitText\<close>: \<open>concatenatedChunks\<close> is the list pushed so far,
  \<open>currentChunk\<close> the accumulator (\<open>null\<close> before the first chunk), and the last argument the
  base chunks still to visit. The warning logged for an oversized base chunk changes nothing.
\<close>

fun splitLoop :: "GreedySplitter \<Rightarrow> Chunk list \<Rightarrow> Chunk option \<Rightarrow> Chunk list \<Rightarrow> Chunk list" where
  "splitLoop gs concatenatedChunks currentChunk [] =
     (case currentChunk of
        Some c \<Rightarrow> concatenatedChunks @ [c]
      | None \<Rightarrow> concatenatedChunks)"
| "splitLoop gs concatenatedChunks None (nextChunk # rest) =
     splitLoop gs concatenatedChunks (Some (cloneChunk nextChunk)) rest"
| "splitLoop gs concatenatedChunks (Some currentChunk) (nextChunk # rest) =
     (if combinedSize currentChunk nextChunk > maxChunkSize gs
      then splitLoop gs (concatenatedChunks @ [currentChunk]) (Some (cloneChunk nextChunk)) rest
      else if length (content currentChunk) \<ge> minChunkSize gs
              \<and> startsNewMajorSection nextChunk
              \<and> \<not> isSameSection currentChunk nextChunk
      then splitLoop gs (concatenatedChunks @ [currentChunk]) (Some (cloneChunk nextChunk)) rest
      else if combinedSize currentChunk nextChunk > preferredChunkSize gs
              \<and> length (content currentChunk) \<ge> minChunkSize gs
              \<and> length (content nextChunk) \<ge> minChunkSize gs
      then splitLoop gs (concatenatedChunks @ [currentChunk]) (Some (cloneChunk nextChunk)) rest
      else splitLoop gs concatenatedChunks (Some (mergeChunks currentChunk nextChunk)) rest)"

text \<open>\<open>splitText\<close>, given the chunks \<open>initialChunks\<close> that the base splitter returned.\<close>

definition splitText :: "GreedySplitter \<Rightarrow> Chunk list \<Rightarrow> Chunk list" where
  "splitText gs initialChunks = splitLoop gs [] None initialChunks"


subsection \<open>Specification vocabulary for the splitter\<close>

text \<open>
  The output of the loop once an accumulator exists, written without the list of pushed
  chunks: a chunk is emitted exactly where one of the three \<open>continue\<close> branches of the
  loop pushes it. Used to reason about \<open>splitLoop\<close>, with which it agrees
  (lemma \<open>splitLoop_emitFrom\<close>).
\<close>

fun emitFrom :: "GreedySplitter \<Rightarrow> Chunk \<Rightarrow> Chunk list \<Rightarrow> Chunk list" where
  "emitFrom gs c [] = [c]"
| "emitFrom gs c (n # rest) =
     (if combinedSize c n > maxChunkSize gs
         \<or> (length (content c) \<ge> minChunkSize gs \<and> startsNewMajorSection n
              \<and> \<not> isSameSection c n)
         \<or> (combinedSize c n > preferredChunkSize gs \<and> length (content c) \<ge> minChunkSize gs
              \<and> length (content n) \<ge> minChunkSize gs)
      then c # emitFrom gs (cloneChunk n) rest
      else emitFrom gs (mergeChunks c n) rest)"

text \<open>
  The base chunks behind each output chunk. \<open>mergeGroup g\<close> is the chunk that the loop
  builds from the base chunks \<open>g\<close>: a clone of the first, with the others merged in from
  left to right. \<open>groupFrom\<close> follows the loop with the base chunks of the accumulator in
  place of the accumulator, and \<open>splitGroups\<close> starts it as \<open>splitText\<close> does. The output
  of \<open>splitText\<close> is \<open>map mergeGroup\<close> of these groups (lemma \<open>splitText_groups\<close>).
\<close>

definition mergeGroup :: "Chunk list \<Rightarrow> Chunk" where
  "mergeGroup g = foldl mergeChunks (cloneChunk (hd g)) (tl g)"

fun groupFrom :: "GreedySplitter \<Rightarrow> Chunk list \<Rightarrow> Chunk list \<Rightarrow> Chunk list list" where
  "groupFrom gs g [] = [g]"
| "groupFrom gs g (n # rest) =
     (if combinedSize (mergeGroup g) n > maxChunkSize gs
         \<or> (length (content (mergeGroup g)) \<ge> minChunkSize gs \<and> startsNewMajorSection n
              \<and> \<not> isSameSection (mergeGroup g) n)
         \<or> (combinedSize (mergeGroup g) n > preferredChunkSize gs
              \<and> length (content (mergeGroup g)) \<ge> minChunkSize gs
              \<and> length (content n) \<ge> minChunkSize gs)
      then g # groupFrom gs [n] rest
      else groupFrom gs (g @ [n]) rest)"

definition splitGroups :: "GreedySplitter \<Rightarrow> Chunk list \<Rightarrow> Chunk list list" where
  "splitGroups gs initialChunks =
     (case initialChunks of [] \<Rightarrow> [] | n # rest \<Rightarrow> groupFrom gs [n] rest)"

text \<open>
  A group respects the ceiling: its merged body is within \<open>maxChunkSize\<close>, or it is a
  single base chunk that was already larger.
\<close>

definition withinCeiling :: "GreedySplitter \<Rightarrow> Chunk list \<Rightarrow> bool" where
  "withinCeiling gs g =
     (length (content (mergeGroup g)) \<le> maxChunkSize gs
      \<or> (length g = 1 \<and> length (content (hd g)) > maxChunkSize gs))"

text \<open>
  Adjacent groups: the earlier one has a merged body of at least \<open>minChunkSize\<close>, or
  merging the first base chunk of the later one into it, separator counted, would exceed
  \<open>maxChunkSize\<close>.
\<close>

fun adjacentGroups :: "GreedySplitter \<Rightarrow> Chunk list list \<Rightarrow> bool" where
  "adjacentGroups gs (a # b # xs) =
     ((length (content (mergeGroup a)) \<ge> minChunkSize gs
       \<or> combinedSize (mergeGroup a) (hd b) > maxChunkSize gs)
      \<and> adjacentGroups gs (b # xs))"
| "adjacentGroups gs _ = True"

text \<open>
  Sample data: a four-character and an eight-character chunk under heading \<open>A\<close>, and
  tight thresholds.
\<close>

definition ex_chunk :: Chunk where
  "ex_chunk = \<lparr>types = [''text''], content = ''abcd'',
               sectionInfo = \<lparr>level = 1, path = [''A'']\<rparr>\<rparr>"

definition ex_big :: Chunk where
  "ex_big = \<lparr>types = [''text''], content = ''abcdefgh'',
             sectionInfo = \<lparr>level = 1, path = [''A'']\<rparr>\<rparr>"

definition ex_splitter :: GreedySplitter where
  "ex_splitter = \<lparr>minChunkSize = 5, preferredChunkSize = 6, maxChunkSize = 7\<rparr>"

section \<open>FTS query escaping (DocumentStore.escapeFtsQuery)\<close>

definition dquote :: char where
  "dquote = CHR 0x22"

definition space :: char where
  "space = CHR 0x20"

text \<open>
  The tokenizer loop over the characters of \<open>query\<close>, with its three variables \<open>tokens\<close>,
  \<open>currentToken\<close> and \<open>inQuote\<close>; it returns the first two as they stand after the last
  character.
\<close>

fun tokenizeLoop :: "string list \<Rightarrow> string \<Rightarrow> bool \<Rightarrow> string \<Rightarrow> string list \<times> string" where
  "tokenizeLoop tokens currentToken inQuote [] = (tokens, currentToken)"
| "tokenizeLoop tokens currentToken inQuote (ch # rest) =
     (if ch = dquote then
        (if inQuote then
           (if length currentToken > 0 then tokenizeLoop (tokens @ [currentToken]) [] False rest
            else tokenizeLoop tokens currentToken False rest)
         else
           (if length currentToken > 0 then tokenizeLoop (tokens @ [currentToken]) [] True rest
            else tokenizeLoop tokens currentToken True rest))
      else if ch = space \<and> \<not> inQuote then
        (if length currentToken > 0 then tokenizeLoop (tokens @ [currentToken]) [] inQuote rest
         else tokenizeLoop tokens currentToken inQuote rest)
      else tokenizeLoop tokens (currentToken @ [ch]) inQuote rest)"

text \<open>The tokens of a query: the loop, then "save any remaining token".\<close>

definition tokenize :: "string \<Rightarrow> string list" where
  "tokenize query =
     (case tokenizeLoop [] [] False query of
        (tokens, currentToken) \<Rightarrow>
          if length currentToken > 0 then tokens @ [currentToken] else tokens)"

text \<open>\<open>s.replace(/"/g, '""')\<close>: every double quote is doubled.\<close>

definition replaceQuotes :: "string \<Rightarrow> string" where
  "replaceQuotes s = concat (map (\<lambda>c. if c = dquote then [dquote, dquote] else [c]) s)"

text \<open>\<open>Array.prototype.join\<close>.\<close>

fun joinWith :: "string \<Rightarrow> string list \<Rightarrow> string" where
  "joinWith sep [] = []"
| "joinWith sep [x] = x"
| "joinWith sep (x # y # ys) = x @ sep @ joinWith sep (y # ys)"

definition escapeToken :: "string \<Rightarrow> string" where
  "escapeToken token = [dquote] @ replaceQuotes token @ [dquote]"

definition escapeFtsQuery :: "string \<Rightarrow> string" where
  "escapeFtsQuery query =
     (let tokens = tokenize query
      in if length tokens = 0 then [dquote, dquote]
         else let escapedTokens = map escapeToken tokens
              in if length escapedTokens = 1 then hd escapedTokens
                 else let exactMatch = [dquote] @ replaceQuotes (joinWith '' '' tokens) @ [dquote];
                          termsQuery = joinWith '' OR '' escapedTokens
                      in exactMatch @ '' OR '' @ termsQuery)"

subsection \<open>The query grammar of the full-text engine\<close>

text \<open>
  Modelled from the spec: the full-text engine (SQLite FTS5) that parses the emitted query
  is not part of the repository. The recogniser below accepts the fragment of its query
  grammar that the spec names: one or more string literals joined by the binary operator
  \<open>OR\<close>, a string literal being a double-quoted run of characters in which a double quote
  is written twice. It is a deterministic automaton over the characters of the query. The
  engine receives the query as a C string, so it reads the characters in front of the
  first NUL character only.
\<close>

definition nul :: char where
  "nul = CHR 0x00"

datatype fts_state = ExpectPhrase | InPhrase | QuoteSeen | SawSpace | SawO | SawR

fun ftsStep :: "fts_state \<Rightarrow> char \<Rightarrow> fts_state option" where
  "ftsStep ExpectPhrase c = (if c = dquote then Some InPhrase else None)"
| "ftsStep InPhrase c = (if c = dquote then Some QuoteSeen else Some InPhrase)"
| "ftsStep QuoteSeen c =
     (if c = dquote then Some InPhrase else if c = space then Some SawSpace else None)"
| "ftsStep SawSpace c = (if c = CHR ''O'' then Some SawO else None)"
| "ftsStep SawO c = (if c = CHR ''R'' then Some SawR else None)"
| "ftsStep SawR c = (if c = space then Some ExpectPhrase else None)"

fun ftsRun :: "fts_state \<Rightarrow> string \<Rightarrow> fts_state option" where
  "ftsRun st [] = Some st"
| "ftsRun st (c # cs) = (case ftsStep st c of None \<Rightarrow> None | Some st' \<Rightarrow> ftsRun st' cs)"

text \<open>
  A query parses when the automaton, run over the characters in front of the first NUL,
  ends right after a closing quote.
\<close>

definition ftsParses :: "string \<Rightarrow> bool" where
  "ftsParses q = (ftsRun ExpectPhrase (takeWhile (\<lambda>c. c \<noteq> nul) q) = Some QuoteSeen)"

text \<open>
  Sample data: the query of the spec's FTS scenario, \<open>foo "bar baz" qux"unbalanced\<close>; two
  words separated by a tab; and a word with a NUL character in it.
\<close>

definition ex_query :: string where
  "ex_query = ''foo '' @ [dquote] @ ''bar baz'' @ [dquote] @ '' qux'' @ [dquote] @ ''unbalanced''"

definition ex_tab_query :: string where
  "ex_tab_query = ''foo'' @ [CHR 0x09] @ ''bar''"

definition ex_nul_query :: string where
  "ex_nul_query = ''a'' @ [nul] @ ''b''"

section \<open>The document store (DocumentStore.ts)\<close>

subsection \<open>Tables\<close>

text \<open>
  The four tables the store's statements touch, each a list of rows in the order the engine
  scans them. Only the columns that the modelled statements read or write are kept (the
  status, progress and timestamp columns of \<open>versions\<close> and \<open>pages\<close> play no part).
  A version name may be \<open>NULL\<close>, which the queries read as \<open>''\<close> through \<open>COALESCE\<close>.
  JavaScript numbers and SQL reals are modelled as exact rationals, where the program
  computes with floating-point numbers; the property of tied search results is therefore
  proved for arbitrary scores as well.
\<close>

record DbLibrary =
  lib_id :: nat
  lib_name :: string

record DbVersion =
  ver_id :: nat
  ver_library_id :: nat
  ver_name :: "string option"

record DbPage =
  page_id :: nat
  page_version_id :: nat
  page_url :: string
  page_title :: string
  page_etag :: "string option"
  page_last_modified :: "string option"
  page_content_type :: "string option"
  page_depth :: "int option"

record DbChunkMetadata =
  meta_types :: "string list"
  meta_level :: nat
  meta_path :: "string list"

record DbDocument =
  doc_id :: nat
  doc_page_id :: nat
  doc_content :: string
  doc_metadata :: DbChunkMetadata
  doc_sort_order :: nat
  doc_embedding :: "rat list option"

record Database =
  libraries :: "DbLibrary list"
  versions :: "DbVersion list"
  pages :: "DbPage list"
  documents :: "DbDocument list"

text \<open>The configuration values that the constructor copies into the store.\<close>

record StoreConfig =
  isVectorSearchEnabled :: bool
  dbDimension :: nat
  searchWeightVec :: rat
  searchWeightFts :: rat
  searchOverfetchFactor :: nat
  vectorSearchMultiplier :: nat
  splitterMaxChunkSize :: nat
  embeddingBatchSize :: nat
  embeddingBatchChars :: nat

subsection \<open>Reciprocal Rank Fusion\<close>

text \<open>
  A row of the hybrid candidate query. The page columns (\<open>url\<close>, \<open>title\<close>,
  \<open>content_type\<close>) and the metadata are carried through the ranking unchanged and are
  left out. The two scores are optional properties in the TypeScript interface.
\<close>

record RawSearchResult =
  chunk_id :: nat
  chunk_content :: string
  vec_score :: "rat option"
  fts_score :: "rat option"

record RankedResult = RawSearchResult +
  vec_rank :: "nat option"
  fts_rank :: "nat option"
  rrf_score :: rat

definition calculateRRF :: "StoreConfig \<Rightarrow> nat option \<Rightarrow> nat option \<Rightarrow> nat \<Rightarrow> rat" where
  "calculateRRF cfg vecRank ftsRank k =
     (let rrf0 = 0;
          rrf1 = (case vecRank of
                    Some r \<Rightarrow> rrf0 + searchWeightVec cfg / (of_nat k + of_nat r)
                  | None \<Rightarrow> rrf0);
          rrf2 = (case ftsRank of
                    Some r \<Rightarrow> rrf1 + searchWeightFts cfg / (of_nat k + of_nat r)
                  | None \<Rightarrow> rrf1)
      in rrf2)"

text \<open>
  One of the two rank maps of \<open>assignRanks\<close>: the results that have the score, sorted by
  descending score (\<open>Array.prototype.sort\<close> is stable), each stored under its id with its
  1-based position; a later entry for the same id overwrites an earlier one.
\<close>

definition rankMap :: "(RawSearchResult \<Rightarrow> rat option) \<Rightarrow> RawSearchResult list \<Rightarrow> (nat \<rightharpoonup> nat)" where
  "rankMap score results =
     (let sorted = sort_key (\<lambda>r. - (case score r of Some s \<Rightarrow> s | None \<Rightarrow> 0))
                     (filter (\<lambda>r. score r \<noteq> None) results)
      in fold (\<lambda>(index, result) ranks. ranks(chunk_id result \<mapsto> index + 1))
           (enumerate 0 sorted) Map.empty)"

definition assignRanks :: "StoreConfig \<Rightarrow> RawSearchResult list \<Rightarrow> RankedResult list" where
  "assignRanks cfg results =
     (let vecRanks = rankMap vec_score results;
          ftsRanks = rankMap fts_score results
      in map (\<lambda>result.
                \<lparr>chunk_id = chunk_id result, chunk_content = chunk_content result,
                 vec_score = vec_score result, fts_score = fts_score result,
                 vec_rank = vecRanks (chunk_id result),
                 fts_rank = ftsRanks (chunk_id result),
                 rrf_score = calculateRRF cfg (vecRanks (chunk_id result))
                               (ftsRanks (chunk_id result)) 60\<rparr>)
           results)"

text \<open>
  The rows of the hybrid candidate query, from the two index lookups \<open>vec_distances\<close>
  (id and distance of the nearest neighbours) and \<open>fts_scores\<close> (id and BM25 score of the
  full-text matches), both computed by the engine and already restricted to the library
  and version. A document is a candidate when it joins a page, is in at least one of the
  two lookups, and is not tagged \<open>structural\<close>. Its scores are
  \<open>COALESCE(1 / (1 + v.vec_distance), 0)\<close> and \<open>COALESCE(-MIN(f.fts_score, 0), 0)\<close>: a
  number in every row, \<open>0\<close> for a document missing from that lookup. The query has no
  \<open>ORDER BY\<close>; the rows are taken in the scan order of \<open>documents\<close>.
\<close>

definition hybridRows :: "Database \<Rightarrow> (nat \<times> rat) list \<Rightarrow> (nat \<times> rat) list \<Rightarrow> RawSearchResult list" where
  "hybridRows db vec_distances fts_scores =
     map (\<lambda>d. \<lparr>chunk_id = doc_id d, chunk_content = doc_content d,
                vec_score = Some (case map_of vec_distances (doc_id d) of
                                    Some distance \<Rightarrow> 1 / (1 + distance)
                                  | None \<Rightarrow> 0),
                fts_score = Some (case map_of fts_scores (doc_id d) of
                                    Some s \<Rightarrow> - min s 0
                                  | None \<Rightarrow> 0)\<rparr>)
       (filter (\<lambda>d. list_ex (\<lambda>p. page_id p = doc_page_id d) (pages db)
                    \<and> (map_of vec_distances (doc_id d) \<noteq> None
                        \<or> map_of fts_scores (doc_id d) \<noteq> None)
                    \<and> \<not> list_ex (\<lambda>t. t = ''structural'') (meta_types (doc_metadata d)))
          (documents db))"

text \<open>
  The ranking that \<open>findByContent\<close> applies to the candidate rows on the hybrid path: assign
  ranks, sort by descending fused score (stable), and slice to \<open>limit\<close>.
\<close>

definition sortByRrf :: "RankedResult list \<Rightarrow> RankedResult list" where
  "sortByRrf rankedResults = sort_key (\<lambda>r. - rrf_score r) rankedResults"

definition topResults :: "StoreConfig \<Rightarrow> RawSearchResult list \<Rightarrow> nat \<Rightarrow> RankedResult list" where
  "topResults cfg rawResults limit = take limit (sortByRrf (assignRanks cfg rawResults))"

text \<open>
  Sample data for the ranking: equal weights, and a store with two chunks on one page.
\<close>

definition ex_cfg :: StoreConfig where
  "ex_cfg = \<lparr>isVectorSearchEnabled = True, dbDimension = 2,
             searchWeightVec = 1, searchWeightFts = 1,
             searchOverfetchFactor = 2, vectorSearchMultiplier = 10,
             splitterMaxChunkSize = 5000, embeddingBatchSize = 2, embeddingBatchChars = 100\<rparr>"

definition ex_search_db :: Database where
  "ex_search_db =
     \<lparr>libraries = [\<lparr>lib_id = 1, lib_name = ''lib''\<rparr>],
      versions = [\<lparr>ver_id = 1, ver_library_id = 1, ver_name = Some ''1.0''\<rparr>],
      pages = [\<lparr>page_id = 1, page_version_id = 1, page_url = ''u'', page_title = ''t'',
                page_etag = None, page_last_modified = None, page_content_type = None,
                page_depth = Some 0\<rparr>],
      documents =
        [\<lparr>doc_id = 1, doc_page_id = 1, doc_content = ''a'',
          doc_metadata = \<lparr>meta_types = [''text''], meta_level = 1, meta_path = [''A'']\<rparr>,
          doc_sort_order = 0, doc_embedding = Some [1, 0]\<rparr>,
         \<lparr>doc_id = 2, doc_page_id = 1, doc_content = ''b'',
          doc_metadata = \<lparr>meta_types = [''text''], meta_level = 1, meta_path = [''A'']\<rparr>,
          doc_sort_order = 1, doc_embedding = Some [0, 1]\<rparr>]\<rparr>"

text \<open>
  What a hybrid search of that store returns when the vector lookup puts chunk 1 before
  chunk 2 and the full-text lookup chunk 2 before chunk 1: two results with the same fused
  score.
\<close>

definition ex_tied_results :: "RankedResult list" where
  "ex_tied_results =
     [\<lparr>chunk_id = 1, chunk_content = ''a'', vec_score = Some 1, fts_score = Some 1,
       vec_rank = Some 1, fts_rank = Some 2, rrf_score = 1 / 61 + 1 / 62\<rparr>,
      \<lparr>chunk_id = 2, chunk_content = ''b'', vec_score = Some (1 / 2), fts_score = Some 2,
       vec_rank = Some 2, fts_rank = Some 1, rrf_score = 1 / 62 + 1 / 61\<rparr>]"

subsection \<open>Embedding with retry\<close>

text \<open>
  What a \<open>catch\<close> clause can receive: an \<open>Error\<close> with its message, or any other thrown
  value.
\<close>

datatype js_error = JsError string | NonErrorThrown

text \<open>
  \<open>String.prototype.toLowerCase\<close> on the letters \<open>A\<close> to \<open>Z\<close>; the case mapping of
  characters outside ASCII is left out. \<open>String.prototype.includes\<close> (here \<open>strIncludes\<close>) is the test for a
  contiguous substring.
\<close>

definition toLowerCase :: "string \<Rightarrow> string" where
  "toLowerCase s =
     map (\<lambda>c. if 65 \<le> (of_char c :: nat) \<and> (of_char c :: nat) \<le> 90
               then char_of ((of_char c :: nat) + 32) else c) s"

fun strIncludes :: "string \<Rightarrow> string \<Rightarrow> bool" where
  "strIncludes [] needle = (needle = [])"
| "strIncludes (c # cs) needle = (prefix needle (c # cs) \<or> strIncludes cs needle)"

definition isInputSizeError :: "js_error \<Rightarrow> bool" where
  "isInputSizeError error =
     (case error of
        NonErrorThrown \<Rightarrow> False
      | JsError msg \<Rightarrow>
          (let message = toLowerCase msg
           in strIncludes message ''maximum context length''
              \<or> strIncludes message ''too long''
              \<or> strIncludes message ''token limit''
              \<or> strIncludes message ''input is too large''
              \<or> strIncludes message ''exceeds''
              \<or> (strIncludes message ''max'' \<and> strIncludes message ''token'')))"

text \<open>
  \<open>Promise.all\<close> over the two halves, followed by the concatenation of their results. When
  both halves reject, JavaScript reports the rejection that happens first in time; the
  model reports the one of the first half.
\<close>

definition promiseAll ::
  "js_error + rat list list \<Rightarrow> js_error + rat list list \<Rightarrow> js_error + rat list list" where
  "promiseAll first second =
     (case first of
        Inl e \<Rightarrow> Inl e
      | Inr firstEmbeddings \<Rightarrow>
          (case second of
             Inl e \<Rightarrow> Inl e
           | Inr secondEmbeddings \<Rightarrow> Inr (firstEmbeddings @ secondEmbeddings)))"

text \<open>
  \<open>embedDocumentsWithRetry\<close>, with the provider's \<open>embedDocuments\<close> as a parameter. The
  result is \<open>None\<close> when the recursion never returns, \<open>Some (Inl e)\<close> when it throws \<open>e\<close>
  and \<open>Some (Inr vectors)\<close> when it returns. The flag \<open>isRetry\<close> only silences log lines
  and is left out. The inner \<open>try\<close> around the retry of a single text logs and rethrows.
\<close>

partial_function (option) embedDocumentsWithRetry ::
  "(string list \<Rightarrow> js_error + rat list list) \<Rightarrow> string list
     \<Rightarrow> (js_error + rat list list) option" where
  "embedDocumentsWithRetry embedDocuments texts =
     (if length texts = 0 then Some (Inr [])
      else case embedDocuments texts of
             Inr vectors \<Rightarrow> Some (Inr vectors)
           | Inl error \<Rightarrow>
               if isInputSizeError error then
                 if length texts > 1 then
                   (let midpoint = length texts div 2;
                        firstHalf = take midpoint texts;
                        secondHalf = drop midpoint texts
                    in Option.bind (embedDocumentsWithRetry embedDocuments firstHalf)
                         (\<lambda>firstEmbeddings.
                            Option.bind (embedDocumentsWithRetry embedDocuments secondHalf)
                              (\<lambda>secondEmbeddings.
                                 Some (promiseAll firstEmbeddings secondEmbeddings))))
                 else
                   (let text = hd texts;
                        midpoint = length text div 2;
                        firstHalf = take midpoint text
                    in embedDocumentsWithRetry embedDocuments [firstHalf])
               else Some (Inl error))"

declare embedDocumentsWithRetry.simps [code]

text \<open>
  Sample provider: it rejects a batch of more than one text, and any text longer than two
  characters, with an input-size error; otherwise the vector of a text is its length.
\<close>

definition ex_embed :: "string list \<Rightarrow> js_error + rat list list" where
  "ex_embed texts =
     (if length texts > 1 \<or> list_ex (\<lambda>t. length t > 2) texts
      then Inl (JsError ''Input is too large'')
      else Inr (map (\<lambda>t. [of_nat (length t)]) texts))"

subsection \<open>Prepared statements\<close>

text \<open>
  Each prepared statement is a function on the tables; a statement that writes returns the
  new tables, with the number of changed rows or the new row id where the code reads it.
  A new row gets an id above every id of its table.
\<close>

definition freshId :: "nat list \<Rightarrow> nat" where
  "freshId ids = Suc (fold max ids 0)"

definition coalesce :: "string option \<Rightarrow> string" where
  "coalesce name = (case name of Some n \<Rightarrow> n | None \<Rightarrow> [])"

text \<open>\<open>INSERT INTO libraries (name) VALUES (?) ON CONFLICT(name) DO NOTHING\<close>\<close>

definition insertLibrary :: "Database \<Rightarrow> string \<Rightarrow> Database" where
  "insertLibrary db name =
     (if list_ex (\<lambda>l. lib_name l = name) (libraries db) then db
      else db\<lparr>libraries := libraries db
                 @ [\<lparr>lib_id = freshId (map lib_id (libraries db)), lib_name = name\<rparr>]\<rparr>)"

text \<open>\<open>SELECT id FROM libraries WHERE name = ?\<close>\<close>

definition getLibraryIdByName :: "Database \<Rightarrow> string \<Rightarrow> nat option" where
  "getLibraryIdByName db name =
     map_option lib_id (find (\<lambda>l. lib_name l = name) (libraries db))"

text \<open>
  \<open>INSERT INTO versions (library_id, name, status) VALUES (?, ?, 'not_indexed')
  ON CONFLICT(library_id, name) DO NOTHING\<close>
\<close>

definition insertVersion :: "Database \<Rightarrow> nat \<Rightarrow> string \<Rightarrow> Database" where
  "insertVersion db libraryId name =
     (if list_ex (\<lambda>v. ver_library_id v = libraryId \<and> ver_name v = Some name) (versions db)
      then db
      else db\<lparr>versions := versions db
                 @ [\<lparr>ver_id = freshId (map ver_id (versions db)), ver_library_id = libraryId,
                     ver_name = Some name\<rparr>]\<rparr>)"

text \<open>\<open>SELECT id FROM versions WHERE library_id = ? AND name = ?\<close> (statement \<open>resolveVersionId\<close>)\<close>

definition resolveVersionIdStmt :: "Database \<Rightarrow> nat \<Rightarrow> string \<Rightarrow> nat option" where
  "resolveVersionIdStmt db libraryId name =
     map_option ver_id
       (find (\<lambda>v. ver_library_id v = libraryId \<and> ver_name v = Some name) (versions db))"

text \<open>\<open>SELECT id FROM pages WHERE version_id = ? AND url = ?\<close>\<close>

definition getPageId :: "Database \<Rightarrow> nat \<Rightarrow> string \<Rightarrow> nat option" where
  "getPageId db versionId u =
     map_option page_id
       (find (\<lambda>p. page_version_id p = versionId \<and> page_url p = u) (pages db))"

text \<open>\<open>DELETE FROM documents WHERE page_id = ?\<close>, with the number of deleted rows.\<close>

definition deleteDocumentsByPageId :: "Database \<Rightarrow> nat \<Rightarrow> nat \<times> Database" where
  "deleteDocumentsByPageId db pageId =
     (length (filter (\<lambda>d. doc_page_id d = pageId) (documents db)),
      db\<lparr>documents := filter (\<lambda>d. doc_page_id d \<noteq> pageId) (documents db)\<rparr>)"

text \<open>
  \<open>INSERT INTO pages (\<dots>) VALUES (\<dots>) ON CONFLICT(version_id, url) DO UPDATE SET
  title = excluded.title, content_type = excluded.content_type, etag = excluded.etag,
  last_modified = excluded.last_modified, depth = excluded.depth\<close>
\<close>

definition insertPage ::
  "Database \<Rightarrow> nat \<Rightarrow> string \<Rightarrow> string \<Rightarrow> string option \<Rightarrow> string option \<Rightarrow> string option
     \<Rightarrow> int option \<Rightarrow> Database" where
  "insertPage db versionId u t etg lastMod contentTyp dpth =
     (if list_ex (\<lambda>p. page_version_id p = versionId \<and> page_url p = u) (pages db)
      then db\<lparr>pages :=
                map (\<lambda>p. if page_version_id p = versionId \<and> page_url p = u
                          then p\<lparr>page_title := t, page_content_type := contentTyp,
                                 page_etag := etg, page_last_modified := lastMod,
                                 page_depth := dpth\<rparr>
                          else p)
                  (pages db)\<rparr>
      else db\<lparr>pages := pages db
                 @ [\<lparr>page_id = freshId (map page_id (pages db)), page_version_id = versionId,
                     page_url = u, page_title = t, page_etag = etg,
                     page_last_modified = lastMod, page_content_type = contentTyp,
                     page_depth = dpth\<rparr>]\<rparr>)"

text \<open>
  \<open>INSERT INTO documents (page_id, content, metadata, sort_order) VALUES (?, ?, ?, ?)\<close>,
  with \<open>lastInsertRowid\<close>.
\<close>

definition insertDocument ::
  "Database \<Rightarrow> nat \<Rightarrow> string \<Rightarrow> DbChunkMetadata \<Rightarrow> nat \<Rightarrow> nat \<times> Database" where
  "insertDocument db pageId body metadata sortOrder =
     (let rowId = freshId (map doc_id (documents db))
      in (rowId,
          db\<lparr>documents := documents db
                @ [\<lparr>doc_id = rowId, doc_page_id = pageId, doc_content = body,
                    doc_metadata = metadata, doc_sort_order = sortOrder,
                    doc_embedding = None\<rparr>]\<rparr>))"

text \<open>
  \<open>UPDATE documents SET embedding = ? WHERE id = ?\<close>; the bound value is a vector or
  \<open>NULL\<close>.
\<close>

definition insertEmbedding :: "Database \<Rightarrow> rat list option \<Rightarrow> nat \<Rightarrow> Database" where
  "insertEmbedding db vector rowId =
     db\<lparr>documents :=
          map (\<lambda>d. if doc_id d = rowId then d\<lparr>doc_embedding := vector\<rparr> else d)
            (documents db)\<rparr>"

text \<open>
  The versions selected by \<open>versions v JOIN libraries l ON v.library_id = l.id WHERE
  l.name = ? AND COALESCE(v.name, '') = COALESCE(?, '')\<close>, and the pages of such versions.
\<close>

definition versionMatches :: "Database \<Rightarrow> string \<Rightarrow> string \<Rightarrow> DbVersion \<Rightarrow> bool" where
  "versionMatches db name ver v =
     (list_ex (\<lambda>l. lib_id l = ver_library_id v \<and> lib_name l = name) (libraries db)
      \<and> coalesce (ver_name v) = ver)"

definition pageMatches :: "Database \<Rightarrow> string \<Rightarrow> string \<Rightarrow> DbPage \<Rightarrow> bool" where
  "pageMatches db name ver p =
     list_ex (\<lambda>v. ver_id v = page_version_id p \<and> versionMatches db name ver v) (versions db)"

text \<open>\<open>DELETE FROM documents WHERE page_id IN (SELECT p.id FROM pages p JOIN \<dots>)\<close>\<close>

definition deleteDocuments :: "Database \<Rightarrow> string \<Rightarrow> string \<Rightarrow> nat \<times> Database" where
  "deleteDocuments db name ver =
     (let selected = (\<lambda>d. list_ex (\<lambda>p. page_id p = doc_page_id d \<and> pageMatches db name ver p)
                            (pages db))
      in (length (filter selected (documents db)),
          db\<lparr>documents := filter (\<lambda>d. \<not> selected d) (documents db)\<rparr>))"

text \<open>\<open>DELETE FROM pages WHERE version_id IN (SELECT v.id FROM versions v JOIN \<dots>)\<close> (statement \<open>deletePages\<close>)\<close>

definition deletePagesStmt :: "Database \<Rightarrow> string \<Rightarrow> string \<Rightarrow> Database" where
  "deletePagesStmt db name ver =
     db\<lparr>pages := filter (\<lambda>p. \<not> pageMatches db name ver p) (pages db)\<rparr>"

text \<open>
  \<open>SELECT d.id FROM documents d JOIN pages p \<dots> JOIN versions v \<dots> JOIN libraries l \<dots>
  WHERE l.name = ? AND COALESCE(v.name, '') = COALESCE(?, '') LIMIT 1\<close>
\<close>

definition checkExists :: "Database \<Rightarrow> string \<Rightarrow> string \<Rightarrow> nat option" where
  "checkExists db name ver =
     map_option doc_id
       (find (\<lambda>d. list_ex (\<lambda>p. page_id p = doc_page_id d \<and> pageMatches db name ver p) (pages db))
          (documents db))"

text \<open>\<open>SELECT v.id, v.library_id FROM versions v JOIN libraries l \<dots> WHERE \<dots>\<close>, first row.\<close>

definition getVersionId :: "Database \<Rightarrow> string \<Rightarrow> string \<Rightarrow> (nat \<times> nat) option" where
  "getVersionId db name ver =
     map_option (\<lambda>v. (ver_id v, ver_library_id v))
       (find (versionMatches db name ver) (versions db))"

text \<open>\<open>DELETE FROM versions WHERE id = ?\<close> and \<open>DELETE FROM libraries WHERE id = ?\<close>\<close>

definition deleteVersionById :: "Database \<Rightarrow> nat \<Rightarrow> nat \<times> Database" where
  "deleteVersionById db versionId =
     (length (filter (\<lambda>v. ver_id v = versionId) (versions db)),
      db\<lparr>versions := filter (\<lambda>v. ver_id v \<noteq> versionId) (versions db)\<rparr>)"

definition deleteLibraryById :: "Database \<Rightarrow> nat \<Rightarrow> nat \<times> Database" where
  "deleteLibraryById db libraryId =
     (length (filter (\<lambda>l. lib_id l = libraryId) (libraries db)),
      db\<lparr>libraries := filter (\<lambda>l. lib_id l \<noteq> libraryId) (libraries db)\<rparr>)"

text \<open>\<open>SELECT COUNT(*) as count FROM versions WHERE library_id = ?\<close>\<close>

definition countVersionsByLibraryId :: "Database \<Rightarrow> nat \<Rightarrow> nat" where
  "countVersionsByLibraryId db libraryId =
     length (filter (\<lambda>v. ver_library_id v = libraryId) (versions db))"

subsection \<open>Store methods\<close>

text \<open>
  What the store throws: a \<open>StoreError\<close>, or a \<open>ConnectionError\<close> wrapping the caught value,
  which is a JavaScript error of the embedding phase, a \<open>StoreError\<close>, or an error raised
  by the database driver.
\<close>

datatype cause = JsCause js_error | StoreCause string | DriverCause string

datatype store_error = StoreError string | ConnectionError string cause

text \<open>
  Modelled from the spec: \<open>denormalizeVersionName\<close> is imported from the store's type
  module, which is not among the sources. The spec stores an unversioned collection under
  the empty string, so the name is stored as it is.
\<close>

definition denormalizeVersionName :: "string \<Rightarrow> string" where
  "denormalizeVersionName name = name"

text \<open>
  \<open>resolveVersionId\<close>: the rows it inserts stay in the tables also when it throws, so it
  returns the tables in both cases.
\<close>

definition resolveVersionId :: "Database \<Rightarrow> string \<Rightarrow> string \<Rightarrow> (string + nat) \<times> Database" where
  "resolveVersionId db library version =
     (let normalizedLibrary = toLowerCase library;
          normalizedVersion = denormalizeVersionName (toLowerCase version);
          db1 = insertLibrary db normalizedLibrary
      in case getLibraryIdByName db1 normalizedLibrary of
           None \<Rightarrow> (Inl ''Failed to resolve library_id'', db1)
         | Some libraryId \<Rightarrow>
             (let db2 = insertVersion db1 libraryId normalizedVersion
              in case resolveVersionIdStmt db2 libraryId normalizedVersion of
                   None \<Rightarrow> (Inl ''Failed to resolve version_id'', db2)
                 | Some versionId \<Rightarrow> (Inr versionId, db2)))"

definition checkDocumentExists :: "Database \<Rightarrow> string \<Rightarrow> string \<Rightarrow> bool" where
  "checkDocumentExists db library version =
     (let normalizedVersion = toLowerCase version
      in checkExists db (toLowerCase library) normalizedVersion \<noteq> None)"

text \<open>
  \<open>padVector\<close> pads with zeros up to the database dimension and throws for a longer vector.
\<close>

definition padVector :: "StoreConfig \<Rightarrow> rat list \<Rightarrow> js_error + rat list" where
  "padVector cfg vector =
     (if length vector > dbDimension cfg
      then Inl (JsError ''Vector dimension exceeds database dimension'')
      else if length vector = dbDimension cfg then Inr vector
      else Inr (vector @ replicate (dbDimension cfg - length vector) 0))"

text \<open>The result of a scrape, as \<open>addDocuments\<close> reads it.\<close>

record ScrapeResult =
  title :: string
  url :: string
  chunks :: "Chunk list"
  contentType :: "string option"
  etag :: "string option"
  lastModified :: "string option"

text \<open>\<open>x || null\<close> for an optional string: the empty string is falsy.\<close>

definition orNull :: "string option \<Rightarrow> string option" where
  "orNull s = (case s of None \<Rightarrow> None | Some x \<Rightarrow> if x = [] then None else Some x)"

text \<open>The text sent to the provider for a chunk: the metadata header, then the body.\<close>

definition embeddingText :: "ScrapeResult \<Rightarrow> Chunk \<Rightarrow> string" where
  "embeddingText result chunk =
     ''<title>'' @ title result @ ''</title>'' @ [newline]
     @ ''<url>'' @ url result @ ''</url>'' @ [newline]
     @ ''<path>'' @ joinWith '' / '' (path (sectionInfo chunk)) @ ''</path>'' @ [newline]
     @ content chunk"

subsection \<open>addDocuments\<close>

text \<open>
  The batching loop of \<open>addDocuments\<close>. Its state is \<open>rawEmbeddings\<close>, \<open>currentBatch\<close> and
  \<open>currentBatchSize\<close>; \<open>batchCount\<close> only feeds log lines. \<open>flushBatch\<close> is the block that
  embeds the current batch, appends its vectors and resets the batch.
\<close>

type_synonym batch_state = "rat list list \<times> string list \<times> nat"

definition flushBatch ::
  "(string list \<Rightarrow> js_error + rat list list) \<Rightarrow> batch_state \<Rightarrow> (js_error + batch_state) option" where
  "flushBatch embedDocuments st =
     (case st of (rawEmbeddings, currentBatch, currentBatchSize) \<Rightarrow>
        Option.bind (embedDocumentsWithRetry embedDocuments currentBatch)
          (\<lambda>r. Some (case r of
                        Inl e \<Rightarrow> Inl e
                      | Inr batchEmbeddings \<Rightarrow> Inr (rawEmbeddings @ batchEmbeddings, [], 0))))"

definition batchStep ::
  "StoreConfig \<Rightarrow> (string list \<Rightarrow> js_error + rat list list) \<Rightarrow> string \<Rightarrow> batch_state
     \<Rightarrow> (js_error + batch_state) option" where
  "batchStep cfg embedDocuments text st =
     (case st of (rawEmbeddings, currentBatch, currentBatchSize) \<Rightarrow>
        let textSize = length text
        in Option.bind
             (if currentBatchSize + textSize > embeddingBatchChars cfg \<and> length currentBatch > 0
              then flushBatch embedDocuments st
              else Some (Inr st))
             (\<lambda>r. case r of
                     Inl e \<Rightarrow> Some (Inl e)
                   | Inr (rawEmbeddings1, currentBatch1, currentBatchSize1) \<Rightarrow>
                       let st2 = (rawEmbeddings1, currentBatch1 @ [text],
                                  currentBatchSize1 + textSize)
                       in if length (currentBatch1 @ [text]) \<ge> embeddingBatchSize cfg
                          then flushBatch embedDocuments st2
                          else Some (Inr st2)))"

fun batchLoop ::
  "StoreConfig \<Rightarrow> (string list \<Rightarrow> js_error + rat list list) \<Rightarrow> string list \<Rightarrow> batch_state
     \<Rightarrow> (js_error + batch_state) option" where
  "batchLoop cfg embedDocuments [] st = Some (Inr st)"
| "batchLoop cfg embedDocuments (text # rest) st =
     (case batchStep cfg embedDocuments text st of
        None \<Rightarrow> None
      | Some (Inl e) \<Rightarrow> Some (Inl e)
      | Some (Inr st') \<Rightarrow> batchLoop cfg embedDocuments rest st')"

text \<open>\<open>rawEmbeddings.map((vector) => this.padVector(vector))\<close>, which throws at the first long vector.\<close>

fun padAll :: "StoreConfig \<Rightarrow> rat list list \<Rightarrow> js_error + rat list list" where
  "padAll cfg [] = Inr []"
| "padAll cfg (vector # rest) =
     (case padVector cfg vector of
        Inl e \<Rightarrow> Inl e
      | Inr padded \<Rightarrow> (case padAll cfg rest of Inl e \<Rightarrow> Inl e | Inr ps \<Rightarrow> Inr (padded # ps)))"

text \<open>The embedding phase: header texts, batches, final batch, padding.\<close>

definition computeEmbeddings ::
  "StoreConfig \<Rightarrow> (string list \<Rightarrow> js_error + rat list list) \<Rightarrow> ScrapeResult
     \<Rightarrow> (js_error + rat list list) option" where
  "computeEmbeddings cfg embedDocuments result =
     (let texts = map (embeddingText result) (chunks result)
      in case batchLoop cfg embedDocuments texts ([], [], 0) of
           None \<Rightarrow> None
         | Some (Inl e) \<Rightarrow> Some (Inl e)
         | Some (Inr (rawEmbeddings, currentBatch, currentBatchSize)) \<Rightarrow>
             (case (if length currentBatch > 0
                    then flushBatch embedDocuments (rawEmbeddings, currentBatch, currentBatchSize)
                    else Some (Inr (rawEmbeddings, currentBatch, currentBatchSize))) of
                None \<Rightarrow> None
              | Some (Inl e) \<Rightarrow> Some (Inl e)
              | Some (Inr (rawEmbeddings', _, _)) \<Rightarrow> Some (padAll cfg rawEmbeddings')))"

text \<open>
  The loop inside the transaction, from chunk index \<open>i\<close> on. The database driver can
  reject an insertion (a full disk, an I/O error): \<open>insertRejected i\<close> says that it throws at
  the insertion of chunk \<open>i\<close>. When the provider returned fewer vectors than there are
  chunks, \<open>paddedEmbeddings[docIndex]\<close> is \<open>undefined\<close>, so is its \<open>JSON.stringify\<close>, and the
  driver binds it as \<open>NULL\<close>: the chunk is stored without embedding and the loop goes on.
  The variable \<open>docIndex\<close> always equals \<open>i\<close>.
\<close>

fun insertChunks ::
  "StoreConfig \<Rightarrow> (nat \<Rightarrow> bool) \<Rightarrow> rat list list \<Rightarrow> nat \<Rightarrow> nat \<Rightarrow> Chunk list \<Rightarrow> Database
     \<Rightarrow> cause + Database" where
  "insertChunks cfg insertRejected paddedEmbeddings pageId i [] db = Inr db"
| "insertChunks cfg insertRejected paddedEmbeddings pageId i (chunk # rest) db =
     (if insertRejected i then Inl (DriverCause ''SqliteError'')
      else case insertDocument db pageId (content chunk)
                  \<lparr>meta_types = types chunk, meta_level = level (sectionInfo chunk),
                   meta_path = path (sectionInfo chunk)\<rparr> i of
             (rowId, db1) \<Rightarrow>
               if isVectorSearchEnabled cfg \<and> length paddedEmbeddings > 0
               then insertChunks cfg insertRejected paddedEmbeddings pageId (Suc i) rest
                      (insertEmbedding db1
                         (if i < length paddedEmbeddings then Some (paddedEmbeddings ! i)
                          else None)
                         rowId)
               else insertChunks cfg insertRejected paddedEmbeddings pageId (Suc i) rest db1)"

text \<open>The function passed to \<open>db.transaction\<close>.\<close>

definition transactionBody ::
  "StoreConfig \<Rightarrow> (nat \<Rightarrow> bool) \<Rightarrow> rat list list \<Rightarrow> nat \<Rightarrow> int \<Rightarrow> ScrapeResult \<Rightarrow> Database
     \<Rightarrow> cause + Database" where
  "transactionBody cfg insertRejected paddedEmbeddings versionId depth result db =
     (let contentTyp = orNull (contentType result);
          etg = orNull (etag result);
          lastMod = orNull (lastModified result);
          db1 = insertPage db versionId (url result) (title result) etg lastMod contentTyp
                  (Some depth)
      in case getPageId db1 versionId (url result) of
           None \<Rightarrow> Inl (StoreCause ''Failed to get page ID'')
         | Some pageId \<Rightarrow>
             insertChunks cfg insertRejected paddedEmbeddings pageId 0 (chunks result) db1)"

text \<open>
  \<open>db.transaction(fn)()\<close>: the tables are those that \<open>fn\<close> leaves when it returns, and those
  at the start of the transaction when it throws; the exception is thrown again.
\<close>

definition runTransaction :: "(Database \<Rightarrow> cause + Database) \<Rightarrow> Database \<Rightarrow> (cause + unit) \<times> Database" where
  "runTransaction fn db = (case fn db of Inl e \<Rightarrow> (Inl e, db) | Inr db' \<Rightarrow> (Inr (), db'))"

text \<open>
  \<open>addDocuments\<close>. It returns the outcome (\<open>Inr ()\<close>, or the \<open>ConnectionError\<close> thrown) and the
  tables as the call leaves them; \<open>None\<close> when the embedding phase never returns. The
  statement that deletes the chunks of an existing page runs on its own, before
  \<open>db.transaction\<close> is called. The loop that warns about chunk bodies above
  \<open>splitterMaxChunkSize\<close> only logs.
\<close>

definition addDocuments ::
  "StoreConfig \<Rightarrow> (string list \<Rightarrow> js_error + rat list list) \<Rightarrow> (nat \<Rightarrow> bool) \<Rightarrow> Database
     \<Rightarrow> string \<Rightarrow> string \<Rightarrow> int \<Rightarrow> ScrapeResult \<Rightarrow> ((store_error + unit) \<times> Database) option" where
  "addDocuments cfg embedDocuments insertRejected db library version depth result =
     (if length (chunks result) = 0 then Some (Inr (), db)
      else case (if isVectorSearchEnabled cfg
                 then computeEmbeddings cfg embedDocuments result
                 else Some (Inr [])) of
             None \<Rightarrow> None
           | Some (Inl e) \<Rightarrow>
               Some (Inl (ConnectionError ''Failed to add documents to store'' (JsCause e)), db)
           | Some (Inr paddedEmbeddings) \<Rightarrow>
               (case resolveVersionId db library version of
                  (Inl msg, db1) \<Rightarrow>
                    Some (Inl (ConnectionError ''Failed to add documents to store''
                                 (StoreCause msg)), db1)
                | (Inr versionId, db1) \<Rightarrow>
                    (let db2 = (case getPageId db1 versionId (url result) of
                                  Some existingPage \<Rightarrow> snd (deleteDocumentsByPageId db1 existingPage)
                                | None \<Rightarrow> db1)
                     in case runTransaction
                               (transactionBody cfg insertRejected paddedEmbeddings versionId
                                  depth result) db2 of
                          (Inl e, db3) \<Rightarrow>
                            Some (Inl (ConnectionError ''Failed to add documents to store'' e),
                                  db3)
                        | (Inr _, db3) \<Rightarrow> Some (Inr (), db3))))"

subsection \<open>deletePages and removeVersion\<close>

text \<open>
  The method \<open>deletePages\<close>: documents first, then pages; it returns the documents deleted.
  \<open>removeVersion\<close> calls it with the names as given, runs the statement \<open>deletePages\<close> once
  more, deletes the version row and, if asked to and no version is left, the library row.
  The driver errors that the \<open>catch\<close> clauses of these two methods wrap are not modelled.
\<close>

definition deletePages :: "Database \<Rightarrow> string \<Rightarrow> string \<Rightarrow> nat \<times> Database" where
  "deletePages db library version =
     (let normalizedVersion = toLowerCase version
      in case deleteDocuments db (toLowerCase library) normalizedVersion of
           (changes, db1) \<Rightarrow>
             (changes, deletePagesStmt db1 (toLowerCase library) normalizedVersion))"

record RemoveResult =
  documentsDeleted :: nat
  versionDeleted :: bool
  libraryDeleted :: bool

definition removeVersion :: "Database \<Rightarrow> string \<Rightarrow> string \<Rightarrow> bool \<Rightarrow> RemoveResult \<times> Database" where
  "removeVersion db library version removeLibraryIfEmpty =
     (let normalizedLibrary = toLowerCase library;
          normalizedVersion = toLowerCase version
      in case getVersionId db normalizedLibrary normalizedVersion of
           None \<Rightarrow>
             (\<lparr>documentsDeleted = 0, versionDeleted = False, libraryDeleted = False\<rparr>, db)
         | Some (versionId, libraryId) \<Rightarrow>
             (case deletePages db library version of
                (docsDeleted, db1) \<Rightarrow>
                  (let db2 = deletePagesStmt db1 normalizedLibrary normalizedVersion
                   in case deleteVersionById db2 versionId of
                        (versionChanges, db3) \<Rightarrow>
                          (let verDeleted = versionChanges > 0
                           in if removeLibraryIfEmpty \<and> verDeleted
                              then (let remainingVersions = countVersionsByLibraryId db3 libraryId
                                    in if remainingVersions = 0
                                       then (case deleteLibraryById db3 libraryId of
                                               (libraryChanges, db4) \<Rightarrow>
                                                 (\<lparr>documentsDeleted = docsDeleted,
                                                   versionDeleted = verDeleted,
                                                   libraryDeleted = libraryChanges > 0\<rparr>, db4))
                                       else (\<lparr>documentsDeleted = docsDeleted,
                                              versionDeleted = verDeleted,
                                              libraryDeleted = False\<rparr>, db3))
                              else (\<lparr>documentsDeleted = docsDeleted,
                                     versionDeleted = verDeleted,
                                     libraryDeleted = False\<rparr>, db3)))))"

subsection \<open>Specification vocabulary for the store\<close>

text \<open>The chunks of a page, in table order, and the page that a (library, version, URL) names.\<close>

definition docsOfPage :: "Database \<Rightarrow> nat \<Rightarrow> DbDocument list" where
  "docsOfPage db pageId = filter (\<lambda>d. doc_page_id d = pageId) (documents db)"

definition lookupPage :: "Database \<Rightarrow> string \<Rightarrow> string \<Rightarrow> string \<Rightarrow> nat option" where
  "lookupPage db library version u =
     (case getLibraryIdByName db (toLowerCase library) of
        None \<Rightarrow> None
      | Some libraryId \<Rightarrow>
          (case resolveVersionIdStmt db libraryId (denormalizeVersionName (toLowerCase version)) of
             None \<Rightarrow> None
           | Some versionId \<Rightarrow> getPageId db versionId u))"

text \<open>The foreign key of \<open>documents.page_id\<close>: every chunk belongs to a page of the table.\<close>

definition documentsHavePages :: "Database \<Rightarrow> bool" where
  "documentsHavePages db =
     list_all (\<lambda>d. list_ex (\<lambda>p. page_id p = doc_page_id d) (pages db)) (documents db)"


text \<open>The columns of a chunk row that the ordering claims are about.\<close>

definition docKey :: "DbDocument \<Rightarrow> nat \<times> string \<times> nat" where
  "docKey d = (doc_page_id d, doc_content d, doc_sort_order d)"

text \<open>
  Sample data for the store: full-text only configuration; a store with library \<open>lib\<close>,
  version \<open>1.0\<close>, page \<open>u\<close> and one stored chunk; a scrape result for the same URL with
  two chunks, and one with none; and the store after the first has been ingested.
\<close>

definition ex_cfg_fts :: StoreConfig where
  "ex_cfg_fts = ex_cfg\<lparr>isVectorSearchEnabled := False\<rparr>"

definition ex_old_doc :: DbDocument where
  "ex_old_doc =
     \<lparr>doc_id = 1, doc_page_id = 1, doc_content = ''old'',
      doc_metadata = \<lparr>meta_types = [''text''], meta_level = 1, meta_path = [''A'']\<rparr>,
      doc_sort_order = 0, doc_embedding = None\<rparr>"

definition ex_store_db :: Database where
  "ex_store_db =
     \<lparr>libraries = [\<lparr>lib_id = 1, lib_name = ''lib''\<rparr>],
      versions = [\<lparr>ver_id = 1, ver_library_id = 1, ver_name = Some ''1.0''\<rparr>],
      pages = [\<lparr>page_id = 1, page_version_id = 1, page_url = ''u'', page_title = ''t'',
                page_etag = None, page_last_modified = None, page_content_type = None,
                page_depth = Some 0\<rparr>],
      documents = [ex_old_doc]\<rparr>"

definition ex_chunk2 :: Chunk where
  "ex_chunk2 = \<lparr>types = [''text''], content = ''efgh'',
                sectionInfo = \<lparr>level = 1, path = [''A'']\<rparr>\<rparr>"

definition ex_result :: ScrapeResult where
  "ex_result = \<lparr>title = ''t'', url = ''u'', chunks = [ex_chunk, ex_chunk2],
                contentType = None, etag = None, lastModified = None\<rparr>"

definition ex_empty_result :: ScrapeResult where
  "ex_empty_result = \<lparr>title = ''t'', url = ''u'', chunks = [],
                      contentType = None, etag = None, lastModified = None\<rparr>"

definition ex_store_db_after :: Database where
  "ex_store_db_after =
     ex_store_db\<lparr>documents :=
       [\<lparr>doc_id = 1, doc_page_id = 1, doc_content = ''abcd'',
         doc_metadata = \<lparr>meta_types = [''text''], meta_level = 1, meta_path = [''A'']\<rparr>,
         doc_sort_order = 0, doc_embedding = None\<rparr>,
        \<lparr>doc_id = 2, doc_page_id = 1, doc_content = ''efgh'',
         doc_metadata = \<lparr>meta_types = [''text''], meta_level = 1, meta_path = [''A'']\<rparr>,
         doc_sort_order = 1, doc_embedding = None\<rparr>]\<rparr>"

text \<open>
  The sample store after the same ingest with vector search enabled and a provider that
  returns one vector for the two chunks: the second chunk is stored without embedding.
\<close>

definition ex_store_db_one_vector :: Database where
  "ex_store_db_one_vector =
     ex_store_db\<lparr>documents :=
       [\<lparr>doc_id = 1, doc_page_id = 1, doc_content = ''abcd'',
         doc_metadata = \<lparr>meta_types = [''text''], meta_level = 1, meta_path = [''A'']\<rparr>,
         doc_sort_order = 0, doc_embedding = Some [1, 0]\<rparr>,
        \<lparr>doc_id = 2, doc_page_id = 1, doc_content = ''efgh'',
         doc_metadata = \<lparr>meta_types = [''text''], meta_level = 1, meta_path = [''A'']\<rparr>,
         doc_sort_order = 1, doc_embedding = None\<rparr>]\<rparr>"

text \<open>
  A store with two libraries, of which \<open>lib\<close> has the versions \<open>1.0\<close> and \<open>2.0\<close>, each with
  one page and one chunk; and the same store without version \<open>1.0\<close>, its page and its chunk.
\<close>

definition ex_two_versions_db :: Database where
  "ex_two_versions_db =
     \<lparr>libraries = [\<lparr>lib_id = 1, lib_name = ''lib''\<rparr>, \<lparr>lib_id = 2, lib_name = ''other''\<rparr>],
      versions = [\<lparr>ver_id = 1, ver_library_id = 1, ver_name = Some ''1.0''\<rparr>,
                  \<lparr>ver_id = 2, ver_library_id = 1, ver_name = Some ''2.0''\<rparr>],
      pages = [\<lparr>page_id = 1, page_version_id = 1, page_url = ''u'', page_title = ''t'',
                page_etag = None, page_last_modified = None, page_content_type = None,
                page_depth = Some 0\<rparr>,
               \<lparr>page_id = 2, page_version_id = 2, page_url = ''u'', page_title = ''t'',
                page_etag = None, page_last_modified = None, page_content_type = None,
                page_depth = Some 0\<rparr>],
      documents = [ex_old_doc, ex_old_doc\<lparr>doc_id := 2, doc_page_id := 2\<rparr>]\<rparr>"

definition ex_one_version_left_db :: Database where
  "ex_one_version_left_db =
     \<lparr>libraries = [\<lparr>lib_id = 1, lib_name = ''lib''\<rparr>, \<lparr>lib_id = 2, lib_name = ''other''\<rparr>],
      versions = [\<lparr>ver_id = 2, ver_library_id = 1, ver_name = Some ''2.0''\<rparr>],
      pages = [\<lparr>page_id = 2, page_version_id = 2, page_url = ''u'', page_title = ''t'',
                page_etag = None, page_last_modified = None, page_content_type = None,
                page_depth = Some 0\<rparr>],
      documents = [ex_old_doc\<lparr>doc_id := 2, doc_page_id := 2\<rparr>]\<rparr>"

text \<open>
  The tables once \<open>removeVersion\<close> has deleted the chunks, the pages and the version row of
  an existing (library, version), before it looks at the library.
\<close>

definition afterVersionDelete :: "Database \<Rightarrow> string \<Rightarrow> string \<Rightarrow> nat \<Rightarrow> Database" where
  "afterVersionDelete db name ver vid =
     db\<lparr>documents := documents (snd (deleteDocuments db name ver)),
        pages := filter (\<lambda>p. \<not> pageMatches db name ver p) (pages db),
        versions := filter (\<lambda>v. ver_id v \<noteq> vid) (versions db)\<rparr>"

subsection \<open>findByContent, hybrid path\<close>

text \<open>
  \<open>String.prototype.trim\<close> for the ASCII white space characters (tab, line feed, vertical
  tab, form feed, carriage return, space); the white space outside ASCII is left out.
\<close>

definition isWhiteSpace :: "char \<Rightarrow> bool" where
  "isWhiteSpace c = ((of_char c :: nat) \<in> {9, 10, 11, 12, 13, 32})"

definition trim :: "string \<Rightarrow> string" where
  "trim s = rev (dropWhile isWhiteSpace (rev (dropWhile isWhiteSpace s)))"

text \<open>
  \<open>findByContent\<close> when vector search is enabled. A blank query returns no result. The
  query is embedded by the provider's \<open>embedQuery\<close> and padded; any exception is wrapped in
  a \<open>ConnectionError\<close>. The two lookups are made with
  \<open>k = overfetchLimit * vectorSearchMultiplier\<close> and \<open>LIMIT overfetchLimit\<close>, where
  \<open>overfetchLimit = max 1 (limit * searchOverfetchFactor)\<close>; \<open>knn\<close> and \<open>fts\<close> stand for
  the engine's vector and full-text indexes, restricted to the library and version. The
  branch for a store without vector search is not modelled.
\<close>

definition findByContentHybrid ::
  "StoreConfig \<Rightarrow> Database \<Rightarrow> (string \<Rightarrow> js_error + rat list)
     \<Rightarrow> (rat list \<Rightarrow> nat \<Rightarrow> (nat \<times> rat) list) \<Rightarrow> (string \<Rightarrow> nat \<Rightarrow> (nat \<times> rat) list)
     \<Rightarrow> string \<Rightarrow> nat \<Rightarrow> store_error + RankedResult list" where
  "findByContentHybrid cfg db embedQuery knn fts query limit =
     (if length (trim query) = 0 then Inr []
      else let ftsQuery = escapeFtsQuery query
           in case embedQuery query of
                Inl e \<Rightarrow>
                  Inl (ConnectionError ''Failed to find documents by content'' (JsCause e))
              | Inr rawEmbedding \<Rightarrow>
                  (case padVector cfg rawEmbedding of
                     Inl e \<Rightarrow>
                       Inl (ConnectionError ''Failed to find documents by content'' (JsCause e))
                   | Inr embedding \<Rightarrow>
                       (let overfetchLimit = max 1 (limit * searchOverfetchFactor cfg);
                            vectorSearchK = overfetchLimit * vectorSearchMultiplier cfg;
                            rawResults = hybridRows db (knn embedding vectorSearchK)
                                           (fts ftsQuery overfetchLimit)
                        in Inr (topResults cfg rawResults limit))))"

section \<open>Properties of the greedy splitter\<close>

lemma cloneChunk_id [simp]: "cloneChunk c = c"
  by (simp add: cloneChunk_def)

lemma splitLoop_emitFrom: "splitLoop gs acc (Some c) rest = acc @ emitFrom gs c rest"
  by (induction rest arbitrary: acc c) auto

lemma splitText_emitFrom:
  "splitText gs base = (case base of [] \<Rightarrow> [] | n # rest \<Rightarrow> emitFrom gs n rest)"
  by (cases base) (simp_all add: splitText_def splitLoop_emitFrom)

lemma content_mergeChunks:
  "content (mergeChunks c n) =
     content c @ (if endsWithNewline (content c) then [] else [newline]) @ content n"
  by (simp add: mergeChunks_def Let_def)

lemma length_mergeChunks: "length (content (mergeChunks c n)) = combinedSize c n"
  by (simp add: content_mergeChunks combinedSize_def separatorSize_def)

lemma emitFrom_nonempty: "emitFrom gs c rest \<noteq> []"
  by (induction rest arbitrary: c) auto

lemma mergeGroup_single [simp]: "mergeGroup [n] = n"
  by (simp add: mergeGroup_def)

lemma mergeGroup_snoc: "g \<noteq> [] \<Longrightarrow> mergeGroup (g @ [n]) = mergeChunks (mergeGroup g) n"
  by (cases g) (simp_all add: mergeGroup_def)

lemma emitFrom_groups:
  "g \<noteq> [] \<Longrightarrow> emitFrom gs (mergeGroup g) rest = map mergeGroup (groupFrom gs g rest)"
proof (induction rest arbitrary: g)
  case Nil
  then show ?case by simp
next
  case (Cons n rest)
  have a: "emitFrom gs n rest = map mergeGroup (groupFrom gs [n] rest)"
    using Cons.IH[of "[n]"] by simp
  have b: "emitFrom gs (mergeChunks (mergeGroup g) n) rest = map mergeGroup (groupFrom gs (g @ [n]) rest)"
    using Cons.IH[of "g @ [n]"] Cons.prems by (simp add: mergeGroup_snoc)
  show ?case
    by (simp add: a b)
qed

lemma splitText_groups: "splitText gs base = map mergeGroup (splitGroups gs base)"
proof (cases base)
  case Nil
  then show ?thesis by (simp add: splitText_def splitGroups_def)
next
  case (Cons n rest)
  then show ?thesis
    using emitFrom_groups[of "[n]" gs rest]
    by (simp add: splitText_emitFrom splitGroups_def)
qed

lemma concat_groupFrom: "concat (groupFrom gs g rest) = g @ rest"
  by (induction rest arbitrary: g) simp_all

lemma groupFrom_nonempty: "g \<noteq> [] \<Longrightarrow> x \<in> set (groupFrom gs g rest) \<Longrightarrow> x \<noteq> []"
  by (induction rest arbitrary: g) (auto split: if_splits)

lemma groupFrom_not_Nil: "groupFrom gs g rest \<noteq> []"
  by (induction rest arbitrary: g) simp_all

lemma hd_groupFrom: "g \<noteq> [] \<Longrightarrow> hd (hd (groupFrom gs g rest)) = hd g"
  by (induction rest arbitrary: g) simp_all

lemma withinCeiling_single: "withinCeiling gs [n]"
  by (simp add: withinCeiling_def) linarith

lemma groupFrom_ceiling:
  "g \<noteq> [] \<Longrightarrow> withinCeiling gs g \<Longrightarrow> x \<in> set (groupFrom gs g rest) \<Longrightarrow> withinCeiling gs x"
proof (induction rest arbitrary: g)
  case Nil
  then show ?case by simp
next
  case (Cons n rest)
  show ?case
  proof (cases "x \<in> set (groupFrom gs (g @ [n]) rest) \<and> \<not> combinedSize (mergeGroup g) n > maxChunkSize gs")
    case True
    have "withinCeiling gs (g @ [n])"
      using True Cons.prems(1) by (simp add: withinCeiling_def mergeGroup_snoc length_mergeChunks)
    then show ?thesis
      using Cons.IH[of "g @ [n]"] True by simp
  next
    case False
    with Cons.prems(3) have "x = g \<or> x \<in> set (groupFrom gs [n] rest)"
      by (auto split: if_splits)
    then show ?thesis
      using Cons.prems(2) Cons.IH[of "[n]"] withinCeiling_single by auto
  qed
qed

lemma groupFrom_adjacent: "g \<noteq> [] \<Longrightarrow> adjacentGroups gs (groupFrom gs g rest)"
proof (induction rest arbitrary: g)
  case Nil
  then show ?case by simp
next
  case (Cons n rest)
  obtain b bs where tl: "groupFrom gs [n] rest = b # bs"
    using groupFrom_not_Nil[of gs "[n]" rest] by (cases "groupFrom gs [n] rest") auto
  have hb: "hd b = n"
    using hd_groupFrom[of "[n]" gs rest] tl by simp
  have IH1: "adjacentGroups gs (groupFrom gs [n] rest)"
    using Cons.IH[of "[n]"] by simp
  have IH2: "adjacentGroups gs (groupFrom gs (g @ [n]) rest)"
    using Cons.IH[of "g @ [n]"] by simp
  show ?case
    using IH1 IH2 tl hb by auto
qed

lemma adjacentGroups_nth:
  "adjacentGroups gs xs \<Longrightarrow> Suc i < length xs \<Longrightarrow>
     length (content (mergeGroup (xs ! i))) \<ge> minChunkSize gs
     \<or> combinedSize (mergeGroup (xs ! i)) (hd (xs ! Suc i)) > maxChunkSize gs"
proof (induction gs xs arbitrary: i rule: adjacentGroups.induct)
  case (1 gs a b xs)
  then show ?case by (cases i) auto
qed auto

text \<open>
  Claim C2, as amended. The output of \<open>splitText\<close> is the base sequence cut into
  consecutive non-empty groups, each merged into one chunk. Every output chunk has a body
  within \<open>maxChunkSize\<close>, except a base chunk that is larger already: it is never merged
  and comes out unchanged, alone in its group. And of any two adjacent output chunks, the
  earlier one has a body of at least \<open>minChunkSize\<close>, or the two are separated by a
  hard-limit rejection: merging the base chunk that starts the later one, newline
  separator counted, would have exceeded \<open>maxChunkSize\<close>. A major section boundary only
  splits after an accumulator of at least \<open>minChunkSize\<close>, so it never leaves a short
  chunk in front of another.
\<close>

theorem greedy_output_sizes:
  "splitText gs initialChunks = map mergeGroup (splitGroups gs initialChunks)
   \<and> concat (splitGroups gs initialChunks) = initialChunks
   \<and> (\<forall>g \<in> set (splitGroups gs initialChunks).
         g \<noteq> []
         \<and> (length (content (mergeGroup g)) \<le> maxChunkSize gs
            \<or> (length g = 1 \<and> mergeGroup g = hd g \<and> length (content (hd g)) > maxChunkSize gs)))
   \<and> (\<forall>i. Suc i < length (splitText gs initialChunks) \<longrightarrow>
         length (content (splitText gs initialChunks ! i)) \<ge> minChunkSize gs
         \<or> combinedSize (splitText gs initialChunks ! i)
              (hd (splitGroups gs initialChunks ! Suc i)) > maxChunkSize gs)"
proof (cases initialChunks)
  case Nil
  then show ?thesis by (simp add: splitText_def splitGroups_def)
next
  case (Cons n rest)
  have sg: "splitGroups gs initialChunks = groupFrom gs [n] rest"
    by (simp add: Cons splitGroups_def)
  have st: "splitText gs initialChunks = map mergeGroup (groupFrom gs [n] rest)"
    using splitText_groups[of gs initialChunks] by (simp add: sg)
  have cc: "concat (groupFrom gs [n] rest) = initialChunks"
    by (simp add: concat_groupFrom Cons)
  have each: "g \<noteq> [] \<and> (length (content (mergeGroup g)) \<le> maxChunkSize gs
            \<or> (length g = 1 \<and> mergeGroup g = hd g \<and> length (content (hd g)) > maxChunkSize gs))"
    if "g \<in> set (groupFrom gs [n] rest)" for g
  proof -
    have ne: "g \<noteq> []" using groupFrom_nonempty[OF _ that] by simp
    have "withinCeiling gs g"
      using groupFrom_ceiling[OF _ withinCeiling_single that] by simp
    then show ?thesis
      using ne by (cases g) (auto simp: withinCeiling_def)
  qed
  have adj: "adjacentGroups gs (groupFrom gs [n] rest)"
    by (rule groupFrom_adjacent) simp
  have nth: "length (content (map mergeGroup (groupFrom gs [n] rest) ! i)) \<ge> minChunkSize gs
         \<or> combinedSize (map mergeGroup (groupFrom gs [n] rest) ! i)
              (hd (groupFrom gs [n] rest ! Suc i)) > maxChunkSize gs"
    if "Suc i < length (groupFrom gs [n] rest)" for i
    using adjacentGroups_nth[OF adj that] that by simp
  show ?thesis
    unfolding sg st using cc each nth by simp
qed


text \<open>
  The theorem at a four-character, an eight-character and a four-character chunk with
  \<open>min = 5\<close>, \<open>max = 7\<close>: the large chunk comes out unchanged and alone, and the short first
  chunk is separated from it by a hard-limit rejection (\<open>4 + 1 + 8 > 7\<close>).
\<close>

theorem greedy_output_sizes_witness:
  "splitText ex_splitter [ex_chunk, ex_big, ex_chunk] = [ex_chunk, ex_big, ex_chunk]
   \<and> splitGroups ex_splitter [ex_chunk, ex_big, ex_chunk] = [[ex_chunk], [ex_big], [ex_chunk]]
   \<and> length (content ex_chunk) \<le> maxChunkSize ex_splitter
   \<and> length (content ex_big) > maxChunkSize ex_splitter
   \<and> length (content ex_chunk) < minChunkSize ex_splitter
   \<and> combinedSize ex_chunk ex_big > maxChunkSize ex_splitter"
proof -
  have groups:
    "splitGroups ex_splitter [ex_chunk, ex_big, ex_chunk] = [[ex_chunk], [ex_big], [ex_chunk]]"
    by (simp add: splitGroups_def ex_splitter_def ex_chunk_def ex_big_def combinedSize_def
        separatorSize_def endsWithNewline_def newline_def)
  note t = greedy_output_sizes[of ex_splitter "[ex_chunk, ex_big, ex_chunk]"]
  from t have out: "splitText ex_splitter [ex_chunk, ex_big, ex_chunk] = [ex_chunk, ex_big, ex_chunk]"
    by (simp add: groups)
  have small: "length (content ex_chunk) < minChunkSize ex_splitter"
    by (simp add: ex_splitter_def ex_chunk_def)
  from t have "length (content ([ex_chunk, ex_big, ex_chunk] ! 0)) \<ge> minChunkSize ex_splitter
        \<or> combinedSize ([ex_chunk, ex_big, ex_chunk] ! 0)
             (hd ([[ex_chunk], [ex_big], [ex_chunk]] ! Suc 0)) > maxChunkSize ex_splitter"
    unfolding out groups by (elim conjE allE[of _ 0]) simp
  with small have "combinedSize ex_chunk ex_big > maxChunkSize ex_splitter"
    by simp
  with out groups small show ?thesis
    by (simp add: ex_splitter_def ex_chunk_def ex_big_def)
qed

text \<open>
  Claim C2 as stated fails: a base chunk larger than \<open>maxChunkSize\<close> is only reported in a
  warning and is passed through unchanged. Here a four-character chunk with \<open>max = 3\<close>.
\<close>

theorem greedy_output_oversized_counterexample:
  "splitText \<lparr>minChunkSize = 1, preferredChunkSize = 2, maxChunkSize = 3\<rparr> [ex_chunk]
     = [ex_chunk]
   \<and> length (content ex_chunk)
       > maxChunkSize \<lparr>minChunkSize = 1, preferredChunkSize = 2, maxChunkSize = 3\<rparr>"
  by (simp add: splitText_def ex_chunk_def cloneChunk_def)

section \<open>Properties of the FTS query escaping\<close>

text \<open>Tokens are never empty and never contain a double quote: every quote toggles the mode.\<close>

lemma tokenizeLoop_inv:
  "list_all (\<lambda>t. t \<noteq> [] \<and> dquote \<notin> set t) tokens \<Longrightarrow> dquote \<notin> set cur \<Longrightarrow>
   list_all (\<lambda>t. t \<noteq> [] \<and> dquote \<notin> set t) (fst (tokenizeLoop tokens cur inQ q))
   \<and> dquote \<notin> set (snd (tokenizeLoop tokens cur inQ q))"
proof (induction q arbitrary: tokens cur inQ)
  case Nil
  then show ?case by simp
next
  case (Cons ch rest)
  let ?P = "list_all (\<lambda>t. t \<noteq> [] \<and> dquote \<notin> set t)"
  have push: "?P (tokens @ [cur])" if "length cur > 0"
    using Cons.prems that by simp
  have empty: "dquote \<notin> set []" by simp
  show ?case
  proof (cases "ch = dquote")
    case True
    then show ?thesis
      using Cons.IH[OF push empty] Cons.IH[OF Cons.prems] by (cases "cur = []"; simp)
  next
    case False
    have app: "dquote \<notin> set (cur @ [ch])"
      using False Cons.prems(2) by simp
    show ?thesis
      using False Cons.IH[OF push empty] Cons.IH[OF Cons.prems] Cons.IH[OF Cons.prems(1) app]
      by (cases "cur = []"; simp)
  qed
qed

lemma tokenize_tokens: "list_all (\<lambda>t. t \<noteq> [] \<and> dquote \<notin> set t) (tokenize q)"
  using tokenizeLoop_inv[of "[]" "[]" False q]
  by (cases "tokenizeLoop [] [] False q") (simp add: tokenize_def)


lemma replaceQuotes_noquote: "dquote \<notin> set s \<Longrightarrow> replaceQuotes s = s"
  by (induction s) (auto simp: replaceQuotes_def)

lemma joinWith_noquote:
  "dquote \<notin> set sep \<Longrightarrow> list_all (\<lambda>t. t \<noteq> [] \<and> dquote \<notin> set t) ts \<Longrightarrow>
   dquote \<notin> set (joinWith sep ts)"
  by (induction sep ts rule: joinWith.induct) simp_all

lemma map_escapeToken_noquote:
  "list_all (\<lambda>t. t \<noteq> [] \<and> dquote \<notin> set t) ts \<Longrightarrow>
   map escapeToken ts = map (\<lambda>t. [dquote] @ t @ [dquote]) ts"
  by (induction ts) (simp_all add: escapeToken_def replaceQuotes_noquote)

text \<open>
  What the code emits for two or more tokens: \<open>"<tokens joined by spaces>" OR "t1" OR \<dots>
  OR "tn"\<close>. The exact-match phrase and every token are wrapped in double quotes and joined
  by \<open>OR\<close>; there are no parentheses. The tokens contain no double quote (and are not
  empty), so doubling the quotes leaves them as they are.
\<close>

lemma escapeFtsQuery_two_or_more_tokens:
  assumes "length (tokenize query) \<ge> 2"
  shows "escapeFtsQuery query =
           [dquote] @ joinWith '' '' (tokenize query) @ [dquote] @ '' OR ''
           @ joinWith '' OR '' (map (\<lambda>t. [dquote] @ t @ [dquote]) (tokenize query))
         \<and> list_all (\<lambda>t. t \<noteq> [] \<and> dquote \<notin> set t) (tokenize query)"
proof -
  have toks: "list_all (\<lambda>t. t \<noteq> [] \<and> dquote \<notin> set t) (tokenize query)"
    by (rule tokenize_tokens)
  have "dquote \<notin> set '' ''"
    by (simp add: dquote_def)
  then have exact: "replaceQuotes (joinWith '' '' (tokenize query)) = joinWith '' '' (tokenize query)"
    using toks by (intro replaceQuotes_noquote joinWith_noquote)
  have "escapeFtsQuery query =
          ([dquote] @ replaceQuotes (joinWith '' '' (tokenize query)) @ [dquote]) @ '' OR ''
          @ joinWith '' OR '' (map escapeToken (tokenize query))"
    using assms by (cases "tokenize query") (auto simp: escapeFtsQuery_def Let_def)
  then show ?thesis
    using toks by (simp only: exact map_escapeToken_noquote[OF toks]) simp
qed

text \<open>
  Claim C3 on the code. The claim, like the docstring of \<open>escapeFtsQuery\<close>, gives the
  emitted query the shape \<open>("<exact-joined>") OR ("t1" OR \<dots> OR "tn")\<close>, and has white space
  separate word tokens, as the comments in the tokenizer say. On the query of the spec's
  scenario, which has four tokens, the code emits the phrases without any parenthesis. And
  the tokenizer compares with the space character only: two words separated by a tab are
  one token, emitted as a single phrase.
\<close>

theorem escapeFtsQuery_no_parentheses_space_only:
  "tokenize ex_query = [''foo'', ''bar baz'', ''qux'', ''unbalanced'']
   \<and> escapeFtsQuery ex_query =
       ''\"foo bar baz qux unbalanced\" OR \"foo\" OR \"bar baz\" OR \"qux\" OR \"unbalanced\"''
   \<and> escapeFtsQuery ex_query \<noteq>
       ''(\"foo bar baz qux unbalanced\") OR (\"foo\" OR \"bar baz\" OR \"qux\" OR \"unbalanced\")''
   \<and> tokenize ex_tab_query = [ex_tab_query]
   \<and> escapeFtsQuery ex_tab_query = [dquote] @ ex_tab_query @ [dquote]"
  by code_simp

text \<open>The engine automaton on the pieces of an emitted query.\<close>

lemma ftsRun_append:
  "ftsRun st (a @ b) = (case ftsRun st a of None \<Rightarrow> None | Some st' \<Rightarrow> ftsRun st' b)"
  by (induction a arbitrary: st) (auto split: option.splits)

lemma ftsRun_replaceQuotes: "ftsRun InPhrase (replaceQuotes t) = Some InPhrase"
  by (induction t) (auto simp: replaceQuotes_def)

lemma ftsRun_escapeToken: "ftsRun ExpectPhrase (escapeToken t) = Some QuoteSeen"
  by (simp add: escapeToken_def ftsRun_append ftsRun_replaceQuotes)

lemma ftsRun_OR: "ftsRun QuoteSeen '' OR '' = Some ExpectPhrase"
  by (simp add: space_def dquote_def)

lemma ftsRun_join:
  "ts \<noteq> [] \<Longrightarrow> ftsRun ExpectPhrase (joinWith '' OR '' (map escapeToken ts)) = Some QuoteSeen"
proof (induction ts rule: induct_list012)
  case (3 x y zs)
  have eq: "joinWith '' OR '' (map escapeToken (x # y # zs))
          = escapeToken x @ ('' OR '' @ joinWith '' OR '' (map escapeToken (y # zs)))"
    by simp
  have ih: "ftsRun ExpectPhrase (joinWith '' OR '' (map escapeToken (y # zs))) = Some QuoteSeen"
    using 3 by blast
  show ?case
    unfolding eq by (simp only: ftsRun_append ftsRun_escapeToken option.case ftsRun_OR ih)
qed (simp_all add: ftsRun_escapeToken)

text \<open>
  Every emitted query is a chain of string literals joined by \<open>OR\<close>: the automaton accepts
  all of its characters.
\<close>

lemma escapeFtsQuery_literals: "ftsRun ExpectPhrase (escapeFtsQuery s) = Some QuoteSeen"
proof -
  have e: "ftsRun ExpectPhrase ([dquote] @ replaceQuotes x @ [dquote]) = Some QuoteSeen" for x
    using ftsRun_escapeToken[of x] by (simp add: escapeToken_def)
  show ?thesis
  proof (cases "tokenize s")
    case Nil
    then show ?thesis by (simp add: escapeFtsQuery_def)
  next
    case (Cons t ts)
    show ?thesis
    proof (cases ts)
      case Nil
      with Cons show ?thesis by (simp add: escapeFtsQuery_def ftsRun_escapeToken)
    next
      case (Cons u us)
      have j: "ftsRun ExpectPhrase (joinWith '' OR '' (map escapeToken (tokenize s))) = Some QuoteSeen"
        by (rule ftsRun_join) (simp add: \<open>tokenize s = t # ts\<close>)
      have "escapeFtsQuery s = ([dquote] @ replaceQuotes (joinWith '' '' (tokenize s)) @ [dquote]) @ '' OR '' @ joinWith '' OR '' (map escapeToken (tokenize s))"
        using Cons \<open>tokenize s = t # ts\<close> by (simp add: escapeFtsQuery_def Let_def)
      then show ?thesis
        using e j by (simp only: ftsRun_append option.case ftsRun_OR)
    qed
  qed
qed


text \<open>
  The characters of the tokens are characters of the query, so a query without NUL is
  emitted without NUL, and the engine reads and accepts all of it.
\<close>

lemma tokenizeLoop_chars:
  "list_all (\<lambda>t. set t \<subseteq> A) tokens \<Longrightarrow> set cur \<subseteq> A \<Longrightarrow> set q \<subseteq> A \<Longrightarrow>
   list_all (\<lambda>t. set t \<subseteq> A) (fst (tokenizeLoop tokens cur inQ q))
   \<and> set (snd (tokenizeLoop tokens cur inQ q)) \<subseteq> A"
proof (induction q arbitrary: tokens cur inQ)
  case Nil
  then show ?case by simp
next
  case (Cons ch rest)
  let ?P = "list_all (\<lambda>t. set t \<subseteq> A)"
  have rest: "set rest \<subseteq> A" and ch: "ch \<in> A"
    using Cons.prems(3) by simp_all
  have push: "?P (tokens @ [cur])"
    using Cons.prems by simp
  have empty: "set [] \<subseteq> A" by simp
  have app: "set (cur @ [ch]) \<subseteq> A"
    using ch Cons.prems(2) by simp
  show ?case
    using Cons.IH[OF push empty rest] Cons.IH[OF Cons.prems(1,2) rest]
      Cons.IH[OF Cons.prems(1) app rest]
    by (cases "cur = []"; simp)
qed

lemma tokenize_chars: "list_all (\<lambda>t. set t \<subseteq> set q) (tokenize q)"
  using tokenizeLoop_chars[of "set q" "[]" "[]" q False]
  by (cases "tokenizeLoop [] [] False q") (simp add: tokenize_def)

lemma set_replaceQuotes: "set (replaceQuotes s) \<subseteq> insert dquote (set s)"
  by (induction s) (auto simp: replaceQuotes_def)

lemma set_joinWith: "set (joinWith sep ts) \<subseteq> set sep \<union> \<Union> (set ` set ts)"
  by (induction sep ts rule: joinWith.induct) auto

lemma nul_not_in_output:
  assumes "nul \<notin> set s"
  shows "nul \<notin> set (escapeFtsQuery s)"
proof -
  have toks: "nul \<notin> set t" if "t \<in> set (tokenize s)" for t
    using tokenize_chars[of s] that assms by (auto simp: list_all_iff)
  have nq: "nul \<noteq> dquote" by (simp add: nul_def dquote_def)
  have rq: "nul \<notin> set (replaceQuotes x)" if "nul \<notin> set x" for x
    using set_replaceQuotes[of x] that nq by auto
  have esc: "nul \<notin> set (escapeToken t)" if "t \<in> set (tokenize s)" for t
    using rq[OF toks[OF that]] nq by (simp add: escapeToken_def)
  have j1: "nul \<notin> set (joinWith '' '' (tokenize s))"
    using set_joinWith[of "'' ''" "tokenize s"] toks by (auto simp: nul_def)
  have j2: "nul \<notin> set (joinWith '' OR '' (map escapeToken (tokenize s)))"
    using set_joinWith[of "'' OR ''" "map escapeToken (tokenize s)"] esc by (auto simp: nul_def)
  have hd: "nul \<notin> set (hd (map escapeToken (tokenize s)))" if "tokenize s \<noteq> []"
    using that esc by (cases "tokenize s") auto
  show ?thesis
    using nq rq[OF j1] j2 hd
    by (auto simp: escapeFtsQuery_def Let_def nul_def)
qed

lemma escapeFtsQuery_parses_without_nul:
  assumes "nul \<notin> set s"
  shows "ftsParses (escapeFtsQuery s)"
proof -
  have all: "takeWhile (\<lambda>c. c \<noteq> nul) (escapeFtsQuery s) = escapeFtsQuery s"
    using nul_not_in_output[OF assms] by (auto simp: takeWhile_eq_all_conv)
  show ?thesis
    unfolding ftsParses_def all by (rule escapeFtsQuery_literals)
qed

text \<open>
  Claim C4 on the code. The claim has every input string yield a query that parses. The
  tokenizer copies a NUL character of the query into the token like any other character:
  for the query \<open>a\<close>, NUL, \<open>b\<close> the emitted phrase has the NUL inside the quotes. The engine
  reads the emitted query up to the NUL, finds an opening quote that is never closed, and
  rejects it.
\<close>

theorem escapeFtsQuery_nul_unterminated:
  "escapeFtsQuery ex_nul_query = [dquote] @ ''a'' @ [nul] @ ''b'' @ [dquote]
   \<and> takeWhile (\<lambda>c. c \<noteq> nul) (escapeFtsQuery ex_nul_query) = [dquote, CHR ''a'']
   \<and> \<not> ftsParses (escapeFtsQuery ex_nul_query)"
  by code_simp

section \<open>Properties of the hybrid ranking\<close>

lemma dom_fold_ranks:
  "dom (fold (\<lambda>(index, result) ranks. ranks(chunk_id result \<mapsto> index + 1)) xs m)
     = dom m \<union> chunk_id ` snd ` set xs"
  by (induction xs arbitrary: m) (auto split: prod.splits)

lemma dom_rankMap:
  "dom (rankMap score results) = chunk_id ` {r \<in> set results. score r \<noteq> None}"
proof -
  have "snd ` set (enumerate 0 xs) = set xs" for xs :: "RawSearchResult list"
    by (metis list.set_map map_snd_enumerate)
  then show ?thesis
    unfolding rankMap_def Let_def dom_fold_ranks by auto
qed

lemma assignRanks_ids: "map chunk_id (assignRanks cfg rawResults) = map chunk_id rawResults"
  by (simp add: assignRanks_def Let_def comp_def)

text \<open>
  Every row of the candidate query carries both scores, so \<open>assignRanks\<close> gives every
  candidate both ranks, also the candidates that one of the two lookups did not return.
\<close>

lemma hybridRows_scores:
  "r \<in> set (hybridRows db vec_distances fts_scores) \<Longrightarrow> vec_score r \<noteq> None \<and> fts_score r \<noteq> None"
  by (auto simp: hybridRows_def)

lemma hybrid_candidates_have_both_ranks:
  assumes "r \<in> set (assignRanks cfg (hybridRows db vec_distances fts_scores))"
  shows "vec_rank r \<noteq> None \<and> fts_rank r \<noteq> None"
proof -
  let ?rows = "hybridRows db vec_distances fts_scores"
  obtain x where x: "x \<in> set ?rows"
    and r: "vec_rank r = rankMap vec_score ?rows (chunk_id x)"
           "fts_rank r = rankMap fts_score ?rows (chunk_id x)"
    using assms by (auto simp: assignRanks_def Let_def)
  have "chunk_id x \<in> dom (rankMap vec_score ?rows)" "chunk_id x \<in> dom (rankMap fts_score ?rows)"
    using x hybridRows_scores[OF x] by (auto simp: dom_rankMap)
  with r show ?thesis
    by auto
qed

text \<open>
  Claim C5 on the code: a chunk that only the full-text lookup returned. The store holds
  chunks 1 and 2; the vector lookup returns chunk 1 only (at distance 0), the full-text
  lookup both (BM25 scores \<open>-2\<close> and \<open>-1\<close>); the weights are 1 and the limit is 5.
  Chunk 2 still gets vector rank 2 and the fused score \<open>1/62 + 1/62\<close>, where the claim
  omits the vector term and gives \<open>1/62\<close>.
\<close>

theorem hybrid_fts_only_candidate_scored_on_both:
  "map_sum id (map (\<lambda>r. (chunk_id r, vec_score r, vec_rank r, fts_rank r, rrf_score r)))
     (findByContentHybrid ex_cfg ex_search_db (\<lambda>q. Inr [1, 0])
        (\<lambda>embedding k. [(1, 0)]) (\<lambda>q n. [(1, - 2), (2, - 1)]) ''q'' 5)
   = Inr [(1, Some 1, Some 1, Some 1, 1 / 61 + 1 / 61),
          (2, Some 0, Some 2, Some 2, 1 / 62 + 1 / 62)]"
  by code_simp

text \<open>
  The sort by fused score compares nothing but the score and is stable: the candidates that
  share a score come out in the order in which the candidate query returned their rows.
\<close>

lemma sortByRrf_ties_keep_row_order:
  "filter (\<lambda>r. rrf_score r = s) (sortByRrf rows) = filter (\<lambda>r. rrf_score r = s) rows"
  using sort_key_stable[of "\<lambda>r. - rrf_score r" "- s" rows] by (simp add: sortByRrf_def)

lemma sorted_wrt_filter_nth:
  assumes "sorted_wrt R (filter P ys)" "i < j" "j < length ys" "P (ys ! i)" "P (ys ! j)"
  shows "R (ys ! i) (ys ! j)"
proof -
  have split: "ys = take j ys @ ys ! j # drop (Suc j) ys"
    using assms(3) by (rule id_take_nth_drop)
  have "ys ! i \<in> set (take j ys)"
    using assms(2,3)
    by (metis length_take less_imp_le_nat min.absorb2 nth_mem nth_take order_less_le_trans)
  then have mem: "ys ! i \<in> set (filter P (take j ys))"
    using assms(4) by simp
  have "sorted_wrt R (filter P (take j ys) @ ys ! j # filter P (drop (Suc j) ys))"
    using assms(1,5) by (subst (asm) split) simp
  then show ?thesis
    using mem by (auto simp: sorted_wrt_append)
qed

lemma ties_ascending:
  assumes asc: "sorted_wrt (<) (map chunk_id rows)"
    and ij: "i < j" "j < length (take n (sortByRrf rows))"
    and tie: "rrf_score (take n (sortByRrf rows) ! i) = rrf_score (take n (sortByRrf rows) ! j)"
  shows "chunk_id (take n (sortByRrf rows) ! i) < chunk_id (take n (sortByRrf rows) ! j)"
proof -
  let ?ys = "sortByRrf rows"
  let ?s = "rrf_score (?ys ! j)"
  have j: "j < n" "j < length ?ys" and i: "i < n"
    using ij by simp_all
  have nth: "take n ?ys ! i = ?ys ! i" "take n ?ys ! j = ?ys ! j"
    using i j by simp_all
  have "sorted_wrt (\<lambda>a b. chunk_id a < chunk_id b) (filter (\<lambda>r. rrf_score r = ?s) rows)"
    using asc by (simp add: sorted_wrt_map sorted_wrt_filter)
  then have "sorted_wrt (\<lambda>a b. chunk_id a < chunk_id b) (filter (\<lambda>r. rrf_score r = ?s) ?ys)"
    by (simp only: sortByRrf_ties_keep_row_order)
  from sorted_wrt_filter_nth[OF this ij(1) j(2)] tie show ?thesis
    by (simp add: nth)
qed

text \<open>
  The candidate rows are in the order of the chunk rows, so in ascending id order when the
  table is; and a search that returns results returns the ranked candidate rows.
\<close>

lemma hybridRows_ids_ascending:
  assumes "sorted_wrt (<) (map doc_id (documents db))"
  shows "sorted_wrt (<) (map chunk_id (hybridRows db vec_distances fts_scores))"
  using assms by (simp add: hybridRows_def comp_def sorted_wrt_map sorted_wrt_filter)

lemma findByContentHybrid_rows:
  assumes "findByContentHybrid cfg db embedQuery knn fts query limit = Inr rs"
  shows "rs = [] \<or> (\<exists>vec_distances fts_scores.
           rs = take limit (sortByRrf (assignRanks cfg (hybridRows db vec_distances fts_scores))))"
  using assms
  by (auto simp: findByContentHybrid_def Let_def topResults_def
      split: if_splits sum.splits)

text \<open>
  Claim C6. The chunk rows are in ascending id order, which the store's own operations
  keep (a new row gets an id above all others and is appended, the other statements delete
  rows or update them in place), and the candidate query returns its rows in the order of
  the table. Then of any two results of \<open>findByContent\<close> with equal fused scores the one
  with the smaller chunk id comes first, whatever the two index lookups return and in
  whatever order. The sort compares the fused score only and is stable, so this does not
  depend on how the score is computed: it also holds with the fused score of every
  candidate replaced by any other number, such as the one that a floating-point evaluation
  of the same formula gives.
\<close>

theorem rrf_ties_ascending_id:
  assumes "sorted_wrt (<) (map doc_id (documents db))"
  shows "(\<forall>rs i j. findByContentHybrid cfg db embedQuery knn fts query limit = Inr rs
             \<and> i < j \<and> j < length rs \<and> rrf_score (rs ! i) = rrf_score (rs ! j)
            \<longrightarrow> chunk_id (rs ! i) < chunk_id (rs ! j))
       \<and> (\<forall>score vec_distances fts_scores rs i j.
            rs = take limit (sortByRrf (map (\<lambda>r. r\<lparr>rrf_score := score r\<rparr>)
                                          (assignRanks cfg
                                             (hybridRows db vec_distances fts_scores))))
             \<and> i < j \<and> j < length rs \<and> rrf_score (rs ! i) = rrf_score (rs ! j)
            \<longrightarrow> chunk_id (rs ! i) < chunk_id (rs ! j))"
proof (intro conjI allI impI)
  fix rs i j
  assume a: "findByContentHybrid cfg db embedQuery knn fts query limit = Inr rs
             \<and> i < j \<and> j < length rs \<and> rrf_score (rs ! i) = rrf_score (rs ! j)"
  then have "rs \<noteq> []"
    by auto
  with a findByContentHybrid_rows[of cfg db embedQuery knn fts query limit rs]
  obtain vd fs where
    rs: "rs = take limit (sortByRrf (assignRanks cfg (hybridRows db vd fs)))"
    by blast
  have "sorted_wrt (<) (map chunk_id (assignRanks cfg (hybridRows db vd fs)))"
    using hybridRows_ids_ascending[OF assms] by (simp only: assignRanks_ids)
  from ties_ascending[OF this, of i j limit] a show "chunk_id (rs ! i) < chunk_id (rs ! j)"
    unfolding rs by blast
next
  fix score :: "RankedResult \<Rightarrow> rat" and vd fs rs i j
  let ?rows = "map (\<lambda>r. r\<lparr>rrf_score := score r\<rparr>) (assignRanks cfg (hybridRows db vd fs))"
  assume a: "rs = take limit (sortByRrf ?rows)
             \<and> i < j \<and> j < length rs \<and> rrf_score (rs ! i) = rrf_score (rs ! j)"
  have "map chunk_id ?rows = map chunk_id (assignRanks cfg (hybridRows db vd fs))"
    by (simp add: comp_def)
  then have "sorted_wrt (<) (map chunk_id ?rows)"
    using hybridRows_ids_ascending[OF assms] by (simp only: assignRanks_ids)
  from ties_ascending[OF this, of i j limit] a show "chunk_id (rs ! i) < chunk_id (rs ! j)"
    by blast
qed

text \<open>
  The theorem at the sample store, whose chunks 1 and 2 are in id order. The vector lookup
  ranks chunk 1 first, the full-text lookup, which returns chunk 2 first, ranks chunk 2
  first: the fused scores tie at \<open>1/61 + 1/62\<close> and chunk 1 is returned before chunk 2.
  With every fused score replaced by 0 the order is the same.
\<close>

theorem rrf_ties_ascending_id_witness:
  "sorted_wrt (<) (map doc_id (documents ex_search_db))
   \<and> findByContentHybrid ex_cfg ex_search_db (\<lambda>q. Inr [1, 0])
        (\<lambda>embedding k. [(1, 0), (2, 1)]) (\<lambda>q n. [(2, - 2), (1, - 1)]) ''q'' 5
       = Inr ex_tied_results
   \<and> 1 < length ex_tied_results
   \<and> rrf_score (ex_tied_results ! 0) = rrf_score (ex_tied_results ! 1)
   \<and> chunk_id (ex_tied_results ! 0) < chunk_id (ex_tied_results ! 1)
   \<and> map chunk_id ex_tied_results = [1, 2]
   \<and> map chunk_id
       (take 5 (sortByRrf (map (\<lambda>r. r\<lparr>rrf_score := 0\<rparr>)
                              (assignRanks ex_cfg
                                 (hybridRows ex_search_db [(2, 1), (1, 0)]
                                    [(2, - 2), (1, - 1)]))))) = [1, 2]"
proof -
  have asc: "sorted_wrt (<) (map doc_id (documents ex_search_db))"
    by (simp add: ex_search_db_def)
  have run: "findByContentHybrid ex_cfg ex_search_db (\<lambda>q. Inr [1, 0])
               (\<lambda>embedding k. [(1, 0), (2, 1)]) (\<lambda>q n. [(2, - 2), (1, - 1)]) ''q'' 5
             = Inr ex_tied_results"
    by code_simp
  have len: "1 < length ex_tied_results"
    and tie: "rrf_score (ex_tied_results ! 0) = rrf_score (ex_tied_results ! 1)"
    and ids: "map chunk_id ex_tied_results = [1, 2]"
    by (simp_all add: ex_tied_results_def)
  have zero: "map chunk_id
       (take 5 (sortByRrf (map (\<lambda>r. r\<lparr>rrf_score := 0\<rparr>)
                              (assignRanks ex_cfg
                                 (hybridRows ex_search_db [(2, 1), (1, 0)]
                                    [(2, - 2), (1, - 1)]))))) = [1, 2]"
    by code_simp
  from rrf_ties_ascending_id[OF asc, of ex_cfg "\<lambda>q. Inr [1, 0]"
      "\<lambda>embedding k. [(1, 0), (2, 1)]" "\<lambda>q n. [(2, - 2), (1, - 1)]" "''q''" 5]
  have "\<forall>rs i j. findByContentHybrid ex_cfg ex_search_db (\<lambda>q. Inr [1, 0])
                    (\<lambda>embedding k. [(1, 0), (2, 1)]) (\<lambda>q n. [(2, - 2), (1, - 1)]) ''q'' 5
                  = Inr rs
             \<and> i < j \<and> j < length rs \<and> rrf_score (rs ! i) = rrf_score (rs ! j)
            \<longrightarrow> chunk_id (rs ! i) < chunk_id (rs ! j)"
    by (rule conjunct1)
  from this[rule_format, of ex_tied_results 0 1] run len tie
  have "chunk_id (ex_tied_results ! 0) < chunk_id (ex_tied_results ! 1)"
    by simp
  with asc run len tie ids zero show ?thesis
    by simp
qed

section \<open>Properties of the embedding retry\<close>

lemma promiseAll_Inr:
  "promiseAll a b = Inr vs \<longleftrightarrow> (\<exists>v1 v2. a = Inr v1 \<and> b = Inr v2 \<and> vs = v1 @ v2)"
  by (auto simp: promiseAll_def split: sum.splits)

text \<open>
  Order: if the provider returns, for a batch, vectors related position by position to the
  texts, then a successful retry returns vectors related position by position to the
  texts or to prefixes of them (a text found too long is cut to a prefix).
\<close>

lemma retry_order_aux:
  assumes ret: "embedDocumentsWithRetry embedDocuments texts = Some r"
  shows "(\<forall>xs ws. embedDocuments xs = Inr ws \<longrightarrow> list_all2 emb xs ws) \<longrightarrow>
         (\<forall>vs. r = Inr vs \<longrightarrow> list_all2 (\<lambda>t v. \<exists>k. emb (take k t) v) texts vs)"
proof (rule embedDocumentsWithRetry.raw_induct[OF _ ret], intro impI)
  fix retry :: "(string list \<Rightarrow> js_error + rat list list) \<Rightarrow> string list \<Rightarrow> (js_error + rat list list) option"
  fix embedDocuments texts r
  let ?R = "\<lambda>t v. \<exists>k. emb (take k t) v"
  assume IH: "\<And>E ts y. retry E ts = Some y \<Longrightarrow>
          (\<forall>xs ws. E xs = Inr ws \<longrightarrow> list_all2 emb xs ws) \<longrightarrow>
          (\<forall>vs. y = Inr vs \<longrightarrow> list_all2 ?R ts vs)"
  assume body: "(if length texts = 0 then Some (Inr [])
      else case embedDocuments texts of
           Inl error \<Rightarrow>
             if isInputSizeError error
             then if 1 < length texts
                  then let midpoint = length texts div 2;
                           firstHalf = take midpoint texts;
                           secondHalf = drop midpoint texts
                       in Option.bind (retry embedDocuments firstHalf)
                           (\<lambda>firstEmbeddings.
                               Option.bind (retry embedDocuments secondHalf)
                                (\<lambda>secondEmbeddings.
                                    Some (promiseAll firstEmbeddings secondEmbeddings)))
                  else let text = hd texts; midpoint = length text div 2;
                           firstHalf = take midpoint text
                       in retry embedDocuments [firstHalf]
             else Some (Inl error)
           | Inr vectors \<Rightarrow> Some (Inr vectors)) = Some r"
  assume prov: "\<forall>xs ws. embedDocuments xs = Inr ws \<longrightarrow> list_all2 emb xs ws"
  have weaken: "list_all2 ?R xs ws" if "list_all2 emb xs ws" for xs ws
    using that by (rule list_all2_mono) (metis take_all order_refl)
  show "\<forall>vs. r = Inr vs \<longrightarrow> list_all2 ?R texts vs"
  proof (cases "texts = []")
    case True
    with body show ?thesis by auto
  next
    case ne: False
    show ?thesis
    proof (cases "embedDocuments texts")
      case (Inr ws)
      with body ne have "r = Inr ws" by simp
      moreover have "list_all2 emb texts ws" using prov Inr by blast
      ultimately show ?thesis using weaken by simp
    next
      case (Inl e)
      show ?thesis
      proof (cases "isInputSizeError e")
        case False
        with body ne Inl show ?thesis by auto
      next
        case size: True
        show ?thesis
        proof (cases "length texts > 1")
          case True
          let ?m = "length texts div 2"
          from body ne Inl size True obtain a b where
            a: "retry embedDocuments (take ?m texts) = Some a"
            and b: "retry embedDocuments (drop ?m texts) = Some b"
            and r: "r = promiseAll a b"
            by (auto simp: Let_def bind_eq_Some_conv)
          show ?thesis
          proof (intro allI impI)
            fix vs assume "r = Inr vs"
            with r have "promiseAll a b = Inr vs" by simp
            then obtain v1 v2 where v: "a = Inr v1" "b = Inr v2" "vs = v1 @ v2"
              unfolding promiseAll_Inr by blast
            have "list_all2 ?R (take ?m texts) v1"
              using IH[OF a] prov v by simp
            moreover have "list_all2 ?R (drop ?m texts) v2"
              using IH[OF b] prov v by simp
            ultimately have "list_all2 ?R (take ?m texts @ drop ?m texts) (v1 @ v2)"
              by (rule list_all2_appendI)
            with v show "list_all2 ?R texts vs" by simp
          qed
        next
          case False
          with ne obtain t where t: "texts = [t]"
            by (cases texts) auto
          from body t Inl size have
            a: "retry embedDocuments [take (length t div 2) t] = Some r"
            by (simp add: Let_def)
          show ?thesis
          proof (intro allI impI)
            fix vs assume "r = Inr vs"
            with IH[OF a] prov have "list_all2 ?R [take (length t div 2) t] vs" by simp
            then show "list_all2 ?R texts vs"
              unfolding t by (auto simp: list_all2_Cons1)
          qed
        qed
      qed
    qed
  qed
qed

text \<open>
  Termination: the retry returns (a result or an error) for every batch, provided the
  provider never reports an input-size error for the single empty text. Without that
  proviso the recursion on a single text can go on for ever, halving the empty string.
\<close>

lemma retry_returns:
  assumes small: "\<And>e. embedDocuments [[]] = Inl e \<Longrightarrow> \<not> isInputSizeError e"
  shows "\<exists>r. embedDocumentsWithRetry embedDocuments texts = Some r"
proof (induction texts rule: measure_induct_rule[where f = "\<lambda>ts. sum_list (map length ts) + length ts"])
  case (less texts)
  show ?case
  proof (cases "texts = []")
    case True
    then show ?thesis by (subst embedDocumentsWithRetry.simps) simp
  next
    case ne: False
    show ?thesis
    proof (cases "embedDocuments texts")
      case (Inr ws)
      with ne show ?thesis by (subst embedDocumentsWithRetry.simps) simp
    next
      case (Inl e)
      show ?thesis
      proof (cases "isInputSizeError e")
        case False
        with ne Inl show ?thesis by (subst embedDocumentsWithRetry.simps) simp
      next
        case size: True
        show ?thesis
        proof (cases "length texts > 1")
          case True
          let ?m = "length texts div 2"
          have lt: "0 < ?m" "?m < length texts" using True by auto
          have s: "sum_list (map length texts) = sum_list (map length (take ?m texts)) + sum_list (map length (drop ?m texts))"
            by (metis append_take_drop_id map_append sum_list.append)
          have "\<exists>r. embedDocumentsWithRetry embedDocuments (take ?m texts) = Some r"
            using lt s by (intro less) simp
          moreover have "\<exists>r. embedDocumentsWithRetry embedDocuments (drop ?m texts) = Some r"
            using lt s by (intro less) simp
          ultimately show ?thesis
            using ne Inl size True
            by (subst embedDocumentsWithRetry.simps) (auto simp: Let_def)
        next
          case False
          with ne obtain t where t: "texts = [t]"
            by (cases texts) auto
          have "t \<noteq> []" using small Inl size t by auto
          then have "length t div 2 < length t" by simp
          then have "\<exists>r. embedDocumentsWithRetry embedDocuments [take (length t div 2) t] = Some r"
            unfolding t by (intro less) (simp add: t)
          then show ?thesis
            using Inl size t
            by (subst embedDocumentsWithRetry.simps) (simp add: Let_def)
        qed
      qed
    qed
  qed
qed


lemma ex_embed_size_error: "isInputSizeError (JsError ''Input is too large'')"
  by code_simp

lemma ex_rate_limit_error: "\<not> isInputSizeError (JsError ''rate limit'')"
  by code_simp

lemma ex_embed_ab: "embedDocumentsWithRetry ex_embed [''ab''] = Some (Inr [[2]])"
  by (subst embedDocumentsWithRetry.simps) (simp add: ex_embed_def)

lemma ex_embed_xy: "embedDocumentsWithRetry ex_embed [''xy''] = Some (Inr [[2]])"
  by (subst embedDocumentsWithRetry.simps) (simp add: ex_embed_def)

text \<open>
  Claim C9. When the provider rejects a non-empty batch with error \<open>error\<close>: on an
  input-size error a batch of several texts is split at \<open>length texts div 2\<close> and both halves
  are retried, the results concatenated first half first; a single text is retried with its
  first half only; any other error is rethrown at once. Whenever the retry succeeds, the
  vectors are in the order of the texts.
\<close>

theorem embedDocumentsWithRetry_on_error:
  assumes "texts \<noteq> []" and "embedDocuments texts = Inl error"
  shows "(isInputSizeError error \<and> length texts > 1 \<longrightarrow>
            embedDocumentsWithRetry embedDocuments texts =
              Option.bind (embedDocumentsWithRetry embedDocuments (take (length texts div 2) texts))
                (\<lambda>first. Option.bind
                   (embedDocumentsWithRetry embedDocuments (drop (length texts div 2) texts))
                   (\<lambda>second. Some (promiseAll first second))))
         \<and> (isInputSizeError error \<and> length texts = 1 \<longrightarrow>
              embedDocumentsWithRetry embedDocuments texts =
                embedDocumentsWithRetry embedDocuments
                  [take (length (hd texts) div 2) (hd texts)])
         \<and> (\<not> isInputSizeError error \<longrightarrow>
              embedDocumentsWithRetry embedDocuments texts = Some (Inl error))
         \<and> (\<forall>vs. embedDocumentsWithRetry embedDocuments texts = Some (Inr vs)
                \<and> (\<forall>xs ws. embedDocuments xs = Inr ws \<longrightarrow> list_all2 emb xs ws)
              \<longrightarrow> list_all2 (\<lambda>t v. \<exists>k. emb (take k t) v) texts vs)"
proof (intro conjI impI allI)
  assume "isInputSizeError error \<and> 1 < length texts"
  then show "embedDocumentsWithRetry embedDocuments texts =
      Option.bind (embedDocumentsWithRetry embedDocuments (take (length texts div 2) texts))
        (\<lambda>first. Option.bind
           (embedDocumentsWithRetry embedDocuments (drop (length texts div 2) texts))
           (\<lambda>second. Some (promiseAll first second)))"
    using assms by (subst embedDocumentsWithRetry.simps) (simp add: Let_def)
next
  assume "isInputSizeError error \<and> length texts = 1"
  then show "embedDocumentsWithRetry embedDocuments texts =
      embedDocumentsWithRetry embedDocuments [take (length (hd texts) div 2) (hd texts)]"
    using assms by (subst embedDocumentsWithRetry.simps) (simp add: Let_def)
next
  assume "\<not> isInputSizeError error"
  then show "embedDocumentsWithRetry embedDocuments texts = Some (Inl error)"
    using assms by (subst embedDocumentsWithRetry.simps) simp
next
  fix vs
  assume "embedDocumentsWithRetry embedDocuments texts = Some (Inr vs)
          \<and> (\<forall>xs ws. embedDocuments xs = Inr ws \<longrightarrow> list_all2 emb xs ws)"
  then show "list_all2 (\<lambda>t v. \<exists>k. emb (take k t) v) texts vs"
    using retry_order_aux[of embedDocuments texts "Inr vs" emb] by blast
qed

text \<open>
  The theorem at the sample provider: the batch \<open>[abcd, xy]\<close> is split into two single
  texts, \<open>abcd\<close> is cut to \<open>ab\<close>, and the two vectors come back in the order of the texts;
  and at a provider that fails with a rate-limit error, which is rethrown.
\<close>

theorem embedDocumentsWithRetry_on_error_witness:
  "[''abcd'', ''xy''] \<noteq> []
   \<and> ex_embed [''abcd'', ''xy''] = Inl (JsError ''Input is too large'')
   \<and> isInputSizeError (JsError ''Input is too large'')
   \<and> embedDocumentsWithRetry ex_embed [''abcd''] = embedDocumentsWithRetry ex_embed [''ab'']
   \<and> embedDocumentsWithRetry ex_embed [''abcd'', ''xy''] = Some (Inr [[2], [2]])
   \<and> embedDocumentsWithRetry (\<lambda>texts. Inl (JsError ''rate limit'')) [''a'']
       = Some (Inl (JsError ''rate limit''))"
proof -
  have big: "ex_embed [''abcd'', ''xy''] = Inl (JsError ''Input is too large'')"
    and one: "ex_embed [''abcd''] = Inl (JsError ''Input is too large'')"
    by (simp_all add: ex_embed_def)
  have single: "embedDocumentsWithRetry ex_embed [''abcd''] = embedDocumentsWithRetry ex_embed [''ab'']"
    using embedDocumentsWithRetry_on_error[where texts = "[''abcd'']" and embedDocuments = ex_embed
        and error = "JsError ''Input is too large''"] one ex_embed_size_error
    by simp
  have batch: "embedDocumentsWithRetry ex_embed [''abcd'', ''xy''] = Some (Inr [[2], [2]])"
    using embedDocumentsWithRetry_on_error[where texts = "[''abcd'', ''xy'']"
        and embedDocuments = ex_embed and error = "JsError ''Input is too large''"]
      big ex_embed_size_error
    by (simp add: single ex_embed_ab ex_embed_xy promiseAll_def)
  have other: "embedDocumentsWithRetry (\<lambda>texts. Inl (JsError ''rate limit'')) [''a'']
       = Some (Inl (JsError ''rate limit''))"
    using embedDocumentsWithRetry_on_error[where texts = "[''a'']"
        and embedDocuments = "\<lambda>texts. Inl (JsError ''rate limit'')"
        and error = "JsError ''rate limit''"] ex_rate_limit_error
    by simp
  show ?thesis
    using big single batch other ex_embed_size_error by simp
qed

section \<open>Properties of addDocuments\<close>

lemma fold_max_ge: "(a::nat) \<le> fold max ids a"
proof (induction ids arbitrary: a)
  case (Cons x xs)
  have "a \<le> max x a" by simp
  also have "\<dots> \<le> fold max xs (max x a)" by (rule Cons)
  finally show ?case by simp
qed simp

lemma fold_max_mem: "x \<in> set ids \<Longrightarrow> (x::nat) \<le> fold max ids a"
proof (induction ids arbitrary: a)
  case (Cons y ys)
  show ?case
  proof (cases "x = y")
    case True
    have "x \<le> max y a" using True by simp
    also have "\<dots> \<le> fold max ys (max y a)" by (rule fold_max_ge)
    finally show ?thesis by simp
  next
    case False
    with Cons show ?thesis by simp
  qed
qed simp

lemma freshId_gt: "x \<in> set ids \<Longrightarrow> x < freshId ids"
  using fold_max_mem[of x ids 0] by (simp add: freshId_def)

lemma docKey_insertEmbedding:
  "map docKey (documents (insertEmbedding db v r)) = map docKey (documents db)"
  by (simp add: insertEmbedding_def docKey_def comp_def)

lemma insertEmbedding_tables [simp]:
  "pages (insertEmbedding db v r) = pages db"
  "versions (insertEmbedding db v r) = versions db"
  "libraries (insertEmbedding db v r) = libraries db"
  by (simp_all add: insertEmbedding_def)

lemma insertChunks_keys:
  "insertChunks cfg rej padded pid i cs db = Inr db' \<Longrightarrow>
     map docKey (documents db') =
       map docKey (documents db) @ map (\<lambda>(j, c). (pid, content c, j)) (zip [i..<i + length cs] cs)
     \<and> pages db' = pages db \<and> versions db' = versions db \<and> libraries db' = libraries db"
proof (induction cs arbitrary: i db)
  case Nil
  then show ?case by simp
next
  case (Cons c cs)
  let ?db1 = "snd (insertDocument db pid (content c)
                  \<lparr>meta_types = types c, meta_level = level (sectionInfo c),
                   meta_path = path (sectionInfo c)\<rparr> i)"
  let ?row = "fst (insertDocument db pid (content c)
                  \<lparr>meta_types = types c, meta_level = level (sectionInfo c),
                   meta_path = path (sectionInfo c)\<rparr> i)"
  have k1: "map docKey (documents ?db1) = map docKey (documents db) @ [(pid, content c, i)]"
    and t1: "pages ?db1 = pages db" "versions ?db1 = versions db" "libraries ?db1 = libraries db"
    by (simp_all add: insertDocument_def Let_def docKey_def)
  have up: "[i..<i + length (c # cs)] = i # [Suc i..<Suc i + length cs]"
    by (simp add: upt_rec)
  from Cons.prems have nrej: "\<not> rej i" by (auto split: if_splits)
  show ?case
  proof (cases "isVectorSearchEnabled cfg \<and> length padded > 0")
    case True
    with Cons.prems nrej have
      "insertChunks cfg rej padded pid (Suc i) cs
         (insertEmbedding ?db1 (if i < length padded then Some (padded ! i) else None) ?row)
         = Inr db'"
      by (auto split: prod.splits)
    from Cons.IH[OF this] show ?thesis
      unfolding up by (simp add: docKey_insertEmbedding k1 t1)
  next
    case False
    with Cons.prems nrej have "insertChunks cfg rej padded pid (Suc i) cs ?db1 = Inr db'"
      by (auto split: prod.splits)
    from Cons.IH[OF this] show ?thesis
      unfolding up by (simp add: k1 t1)
  qed
qed


lemma docsOfPage_keys:
  "map doc_sort_order (docsOfPage db pid)
     = map (\<lambda>k. snd (snd k)) (filter (\<lambda>k. fst k = pid) (map docKey (documents db)))"
  "map doc_content (docsOfPage db pid)
     = map (\<lambda>k. fst (snd k)) (filter (\<lambda>k. fst k = pid) (map docKey (documents db)))"
  by (induction "documents db" arbitrary: db) (simp_all add: docsOfPage_def docKey_def filter_map comp_def)

lemma docsOfPage_empty_keys:
  "docsOfPage db pid = [] \<Longrightarrow> filter (\<lambda>k. fst k = pid) (map docKey (documents db)) = []"
  by (simp add: docsOfPage_def docKey_def filter_map comp_def)

lemma new_keys:
  assumes "length js = length cs"
  shows "map (\<lambda>k. snd (snd k))
           (filter (\<lambda>k. fst k = pid) (map (\<lambda>(j, c). (pid, content c, j)) (zip js cs))) = js"
    and "map (\<lambda>k. fst (snd k))
           (filter (\<lambda>k. fst k = pid) (map (\<lambda>(j, c). (pid, content c, j)) (zip js cs)))
         = map content cs"
  using assms by (induction js cs rule: list_induct2) simp_all

lemma insertChunks_page:
  assumes "insertChunks cfg rej padded pid 0 cs db = Inr db'" and "docsOfPage db pid = []"
  shows "map doc_sort_order (docsOfPage db' pid) = [0..<length cs]"
    and "map doc_content (docsOfPage db' pid) = map content cs"
    and "pages db' = pages db" and "versions db' = versions db" and "libraries db' = libraries db"
proof -
  have len: "length [0..<0 + length cs] = length cs" by simp
  note k = insertChunks_keys[OF assms(1)]
  note e = docsOfPage_empty_keys[OF assms(2)]
  show "map doc_sort_order (docsOfPage db' pid) = [0..<length cs]"
    using new_keys(1)[OF len, of pid] by (simp add: docsOfPage_keys k e)
  show "map doc_content (docsOfPage db' pid) = map content cs"
    using new_keys(2)[OF len, of pid] by (simp add: docsOfPage_keys k e)
  show "pages db' = pages db" "versions db' = versions db" "libraries db' = libraries db"
    using k by simp_all
qed

lemma find_map_preserved:
  assumes "\<And>p. P (f p) = P p" and "\<And>p. g (f p) = g p"
  shows "map_option g (find P (map f xs)) = map_option g (find P xs)"
  using assms by (induction xs) simp_all

lemma list_ex_find: "list_ex P xs \<longleftrightarrow> find P xs \<noteq> None"
  by (induction xs) simp_all

lemma find_append_new: "find P xs = None \<Longrightarrow> P x \<Longrightarrow> find P (xs @ [x]) = Some x"
  by (induction xs) (simp_all split: if_splits)

lemma insertPage_tables [simp]:
  "documents (insertPage db vid u t e l c d) = documents db"
  "versions (insertPage db vid u t e l c d) = versions db"
  "libraries (insertPage db vid u t e l c d) = libraries db"
  by (simp_all add: insertPage_def)

lemma getPageId_insertPage:
  "getPageId (insertPage db vid u t e l c d) vid u =
     (case getPageId db vid u of
        Some ep \<Rightarrow> Some ep
      | None \<Rightarrow> Some (freshId (map page_id (pages db))))"
proof (cases "find (\<lambda>p. page_version_id p = vid \<and> page_url p = u) (pages db)")
  case None
  then show ?thesis
    by (simp add: getPageId_def insertPage_def list_ex_find find_append_new)
next
  case (Some p)
  let ?P = "\<lambda>p. page_version_id p = vid \<and> page_url p = u"
  let ?f = "\<lambda>p. if page_version_id p = vid \<and> page_url p = u
                          then p\<lparr>page_title := t, page_content_type := c,
                                 page_etag := e, page_last_modified := l,
                                 page_depth := d\<rparr>
                          else p"
  have "map_option page_id (find ?P (map ?f (pages db))) = map_option page_id (find ?P (pages db))"
    by (rule find_map_preserved) simp_all
  with Some show ?thesis
    by (simp add: getPageId_def insertPage_def list_ex_find)
qed

lemma fresh_page_no_docs:
  assumes "documentsHavePages db"
  shows "docsOfPage db (freshId (map page_id (pages db))) = []"
proof -
  have "doc_page_id d \<noteq> freshId (map page_id (pages db))" if "d \<in> set (documents db)" for d
  proof -
    from assms that obtain p where "p \<in> set (pages db)" "page_id p = doc_page_id d"
      by (auto simp: documentsHavePages_def list_all_iff list_ex_iff)
    then have "doc_page_id d \<in> set (map page_id (pages db))" by force
    from freshId_gt[OF this] show ?thesis by simp
  qed
  then show ?thesis
    by (auto simp: docsOfPage_def filter_empty_conv)
qed

lemma deleteDocumentsByPageId_page:
  "docsOfPage (snd (deleteDocumentsByPageId db pid)) pid = []"
  "pages (snd (deleteDocumentsByPageId db pid)) = pages db"
  "versions (snd (deleteDocumentsByPageId db pid)) = versions db"
  "libraries (snd (deleteDocumentsByPageId db pid)) = libraries db"
  by (simp_all add: deleteDocumentsByPageId_def docsOfPage_def filter_empty_conv)

lemma getPageId_pages: "pages a = pages b \<Longrightarrow> getPageId a vid u = getPageId b vid u"
  by (simp add: getPageId_def)

lemma resolveVersionId_result:
  assumes "resolveVersionId db library version = (Inr vid, db1)"
  shows "documents db1 = documents db" and "pages db1 = pages db"
    and "\<exists>lid. getLibraryIdByName db1 (toLowerCase library) = Some lid
            \<and> resolveVersionIdStmt db1 lid (denormalizeVersionName (toLowerCase version)) = Some vid"
  using assms
  by (auto simp: resolveVersionId_def Let_def insertLibrary_def insertVersion_def
      getLibraryIdByName_def split: option.splits if_splits)

lemma resolveVersionId_existing:
  assumes "getLibraryIdByName db (toLowerCase library) = Some lid"
    and "resolveVersionIdStmt db lid (denormalizeVersionName (toLowerCase version)) = Some vid"
  shows "resolveVersionId db library version = (Inr vid, db)"
proof -
  have l: "insertLibrary db (toLowerCase library) = db"
    using assms(1) by (auto simp: insertLibrary_def getLibraryIdByName_def list_ex_find)
  have v: "insertVersion db lid (denormalizeVersionName (toLowerCase version)) = db"
    using assms(2) by (auto simp: insertVersion_def resolveVersionIdStmt_def list_ex_find)
  show ?thesis
    using assms by (simp add: resolveVersionId_def Let_def l v)
qed


lemma addDocuments_success_steps:
  assumes ok: "addDocuments cfg E rej db library version depth result = Some (Inr (), db')"
    and ne: "chunks result \<noteq> []"
  shows "\<exists>padded vid db1. resolveVersionId db library version = (Inr vid, db1)
          \<and> transactionBody cfg rej padded vid depth result
              (case getPageId db1 vid (url result) of
                 Some ep \<Rightarrow> snd (deleteDocumentsByPageId db1 ep)
               | None \<Rightarrow> db1) = Inr db'"
proof -
  from ok ne obtain padded where
    rest: "(case resolveVersionId db library version of
                  (Inl msg, db1) \<Rightarrow>
                    Some (Inl (ConnectionError ''Failed to add documents to store''
                                 (StoreCause msg)), db1)
                | (Inr versionId, db1) \<Rightarrow>
                    (let db2 = (case getPageId db1 versionId (url result) of
                                  Some existingPage \<Rightarrow> snd (deleteDocumentsByPageId db1 existingPage)
                                | None \<Rightarrow> db1)
                     in case runTransaction
                               (transactionBody cfg rej padded versionId
                                  depth result) db2 of
                          (Inl e, db3) \<Rightarrow>
                            Some (Inl (ConnectionError ''Failed to add documents to store'' e),
                                  db3)
                        | (Inr _, db3) \<Rightarrow> Some (Inr (), db3))) = Some (Inr (), db')"
    unfolding addDocuments_def by (simp split: option.splits sum.splits)
  obtain r db1 where rv: "resolveVersionId db library version = (r, db1)"
    by (cases "resolveVersionId db library version")
  with rest obtain vid where vid: "r = Inr vid"
    by (cases r) auto
  let ?db2 = "case getPageId db1 vid (url result) of
                 Some ep \<Rightarrow> snd (deleteDocumentsByPageId db1 ep)
               | None \<Rightarrow> db1"
  from rest rv vid have
    "(case runTransaction (transactionBody cfg rej padded vid depth result) ?db2 of
        (Inl e, db3) \<Rightarrow> Some (Inl (ConnectionError ''Failed to add documents to store'' e), db3)
      | (Inr _, db3) \<Rightarrow> Some (Inr (), db3)) = Some (Inr (), db')"
    by (simp add: Let_def)
  then have "transactionBody cfg rej padded vid depth result ?db2 = Inr db'"
    by (auto simp: runTransaction_def split: sum.splits)
  with rv vid show ?thesis by blast
qed

lemma transactionBody_page:
  assumes tb: "transactionBody cfg rej padded vid depth result db2 = Inr db'"
    and clean: "case getPageId db2 vid (url result) of
                  Some ep \<Rightarrow> docsOfPage db2 ep = []
                | None \<Rightarrow> documentsHavePages db2"
  shows "\<exists>pid. getPageId db' vid (url result) = Some pid
           \<and> (\<forall>ep. getPageId db2 vid (url result) = Some ep \<longrightarrow> pid = ep)
           \<and> map doc_sort_order (docsOfPage db' pid) = [0..<length (chunks result)]
           \<and> map doc_content (docsOfPage db' pid) = map content (chunks result)
           \<and> versions db' = versions db2 \<and> libraries db' = libraries db2"
proof -
  let ?dbp = "insertPage db2 vid (url result) (title result) (orNull (etag result))
                (orNull (lastModified result)) (orNull (contentType result)) (Some depth)"
  obtain pid where pid: "getPageId ?dbp vid (url result) = Some pid"
    by (cases "getPageId db2 vid (url result)") (simp_all add: getPageId_insertPage)
  have same: "\<forall>ep. getPageId db2 vid (url result) = Some ep \<longrightarrow> pid = ep"
    using pid by (auto simp: getPageId_insertPage)
  have empty: "docsOfPage ?dbp pid = []"
  proof (cases "getPageId db2 vid (url result)")
    case None
    with pid have "pid = freshId (map page_id (pages db2))"
      by (simp add: getPageId_insertPage)
    moreover have "documentsHavePages db2" using clean None by simp
    ultimately have "docsOfPage db2 pid = []" by (simp add: fresh_page_no_docs)
    then show ?thesis by (simp add: docsOfPage_def)
  next
    case (Some ep)
    with same clean have "docsOfPage db2 pid = []" by simp
    then show ?thesis by (simp add: docsOfPage_def)
  qed
  from tb pid have ins: "insertChunks cfg rej padded pid 0 (chunks result) ?dbp = Inr db'"
    by (simp add: transactionBody_def Let_def)
  note r = insertChunks_page[OF ins empty]
  have "getPageId db' vid (url result) = Some pid"
    using pid getPageId_pages[OF r(3)] by simp
  with same r show ?thesis by simp
qed

lemma addDocuments_page:
  assumes ok: "addDocuments cfg E rej db library version depth result = Some (Inr (), db')"
    and ne: "chunks result \<noteq> []"
    and pre: "documentsHavePages db \<or> lookupPage db library version (url result) \<noteq> None"
  shows "\<exists>pid. lookupPage db' library version (url result) = Some pid
           \<and> (\<forall>ep. lookupPage db library version (url result) = Some ep \<longrightarrow> pid = ep)
           \<and> map doc_sort_order (docsOfPage db' pid) = [0..<length (chunks result)]
           \<and> map doc_content (docsOfPage db' pid) = map content (chunks result)"
proof -
  from addDocuments_success_steps[OF ok ne] obtain padded vid db1 where
    rv: "resolveVersionId db library version = (Inr vid, db1)"
    and tb: "transactionBody cfg rej padded vid depth result
              (case getPageId db1 vid (url result) of
                 Some ep \<Rightarrow> snd (deleteDocumentsByPageId db1 ep)
               | None \<Rightarrow> db1) = Inr db'"
    by blast
  let ?db2 = "case getPageId db1 vid (url result) of
                 Some ep \<Rightarrow> snd (deleteDocumentsByPageId db1 ep)
               | None \<Rightarrow> db1"
  note res = resolveVersionId_result[OF rv]
  from res(3) obtain lid where
    lid: "getLibraryIdByName db1 (toLowerCase library) = Some lid"
    and vs: "resolveVersionIdStmt db1 lid (denormalizeVersionName (toLowerCase version)) = Some vid"
    by blast
  have tabs: "pages ?db2 = pages db1" "versions ?db2 = versions db1" "libraries ?db2 = libraries db1"
    by (simp_all add: deleteDocumentsByPageId_page split: option.splits)
  have gp: "getPageId ?db2 vid (url result) = getPageId db1 vid (url result)"
    by (rule getPageId_pages) (rule tabs)
  have known: "db1 = db \<and> getPageId db1 vid (url result) = Some ep"
    if "lookupPage db library version (url result) = Some ep" for ep
  proof -
    from that obtain lid0 vid0 where
      a: "getLibraryIdByName db (toLowerCase library) = Some lid0"
      and b: "resolveVersionIdStmt db lid0 (denormalizeVersionName (toLowerCase version)) = Some vid0"
      and c: "getPageId db vid0 (url result) = Some ep"
      by (auto simp: lookupPage_def split: option.splits)
    from resolveVersionId_existing[OF a b] rv have "db1 = db" "vid = vid0" by simp_all
    with c show ?thesis by simp
  qed
  have clean: "case getPageId ?db2 vid (url result) of
                  Some ep \<Rightarrow> docsOfPage ?db2 ep = []
                | None \<Rightarrow> documentsHavePages ?db2"
  proof (cases "getPageId db1 vid (url result)")
    case (Some ep)
    then show ?thesis
      using gp by (simp add: deleteDocumentsByPageId_page)
  next
    case None
    with known pre have "documentsHavePages db"
      by (cases "lookupPage db library version (url result)") auto
    then have "documentsHavePages db1"
      using res(1,2) by (simp add: documentsHavePages_def)
    with None show ?thesis by simp
  qed
  from transactionBody_page[OF tb clean] obtain pid where
    p: "getPageId db' vid (url result) = Some pid"
    and same: "\<forall>ep. getPageId ?db2 vid (url result) = Some ep \<longrightarrow> pid = ep"
    and so: "map doc_sort_order (docsOfPage db' pid) = [0..<length (chunks result)]"
    and co: "map doc_content (docsOfPage db' pid) = map content (chunks result)"
    and t: "versions db' = versions ?db2" "libraries db' = libraries ?db2"
    by blast
  have "getLibraryIdByName db' (toLowerCase library) = Some lid"
    using lid t tabs by (simp add: getLibraryIdByName_def)
  moreover have "resolveVersionIdStmt db' lid (denormalizeVersionName (toLowerCase version)) = Some vid"
    using vs t tabs by (simp add: resolveVersionIdStmt_def)
  ultimately have lp: "lookupPage db' library version (url result) = Some pid"
    using p by (simp add: lookupPage_def)
  have "\<forall>ep. lookupPage db library version (url result) = Some ep \<longrightarrow> pid = ep"
    using known same gp by auto
  with lp so co show ?thesis by blast
qed

text \<open>
  Claim C7. After a successful \<open>addDocuments\<close> of a result with \<open>n > 0\<close> chunks, into a store
  whose chunks all belong to pages, the chunks of the page named by (library, version, URL)
  carry the sort orders \<open>0, \<dots>, n - 1\<close> in this order, with the bodies of the input chunks
  in input order. Ingesting the same result again, successfully, gives the same page the same
  sort orders and bodies.
\<close>

theorem addDocuments_sort_order:
  assumes "addDocuments cfg embedDocuments insertRejected db library version depth result
             = Some (Inr (), db')"
    and "chunks result \<noteq> []"
    and "documentsHavePages db"
  shows "\<exists>pageId. lookupPage db' library version (url result) = Some pageId
           \<and> map doc_sort_order (docsOfPage db' pageId) = [0..<length (chunks result)]
           \<and> map doc_content (docsOfPage db' pageId) = map content (chunks result)
           \<and> (\<forall>cfg' embedDocuments' insertRejected' depth' db''.
                 addDocuments cfg' embedDocuments' insertRejected' db' library version depth'
                   result = Some (Inr (), db'')
                 \<longrightarrow> lookupPage db'' library version (url result) = Some pageId
                     \<and> map doc_sort_order (docsOfPage db'' pageId) = [0..<length (chunks result)]
                     \<and> map doc_content (docsOfPage db'' pageId) = map content (chunks result))"
proof -
  from addDocuments_page[OF assms(1,2)] assms(3) obtain pageId where
    p: "lookupPage db' library version (url result) = Some pageId"
    and so: "map doc_sort_order (docsOfPage db' pageId) = [0..<length (chunks result)]"
    and co: "map doc_content (docsOfPage db' pageId) = map content (chunks result)"
    by blast
  have again: "lookupPage db'' library version (url result) = Some pageId
      \<and> map doc_sort_order (docsOfPage db'' pageId) = [0..<length (chunks result)]
      \<and> map doc_content (docsOfPage db'' pageId) = map content (chunks result)"
    if "addDocuments cfg' embedDocuments' insertRejected' db' library version depth' result
          = Some (Inr (), db'')"
    for cfg' embedDocuments' insertRejected' depth' db''
  proof -
    have "documentsHavePages db' \<or> lookupPage db' library version (url result) \<noteq> None"
      using p by simp
    from addDocuments_page[OF that assms(2) this] p show ?thesis
      by auto
  qed
  from p so co again show ?thesis
    by blast
qed

lemma ex_ingest:
  "addDocuments ex_cfg_fts ex_embed (\<lambda>i. False) ex_store_db ''Lib'' ''1.0'' 0 ex_result
     = Some (Inr (), ex_store_db_after)"
  by code_simp

text \<open>
  The theorem at the sample store: the two chunks of the result replace the stored chunk
  of page 1 and get the sort orders 0 and 1; a second ingest gives the same. And with
  vector search enabled and a provider that returns one vector for the two chunks: the
  ingest succeeds, the second chunk has no embedding, and the sort orders are 0 and 1.
\<close>

theorem addDocuments_sort_order_witness:
  "addDocuments ex_cfg_fts ex_embed (\<lambda>i. False) ex_store_db ''Lib'' ''1.0'' 0 ex_result
     = Some (Inr (), ex_store_db_after)
   \<and> chunks ex_result \<noteq> []
   \<and> documentsHavePages ex_store_db
   \<and> lookupPage ex_store_db_after ''Lib'' ''1.0'' ''u'' = Some 1
   \<and> map doc_sort_order (docsOfPage ex_store_db_after 1) = [0, 1]
   \<and> map doc_content (docsOfPage ex_store_db_after 1) = [''abcd'', ''efgh'']
   \<and> addDocuments ex_cfg_fts ex_embed (\<lambda>i. False) ex_store_db_after ''Lib'' ''1.0'' 0 ex_result
       = Some (Inr (), ex_store_db_after)
   \<and> addDocuments ex_cfg (\<lambda>texts. Inr [[1]]) (\<lambda>i. False) ex_store_db ''Lib'' ''1.0'' 0 ex_result
       = Some (Inr (), ex_store_db_one_vector)
   \<and> lookupPage ex_store_db_one_vector ''Lib'' ''1.0'' ''u'' = Some 1
   \<and> map doc_sort_order (docsOfPage ex_store_db_one_vector 1) = [0, 1]
   \<and> map doc_embedding (docsOfPage ex_store_db_one_vector 1) = [Some [1, 0], None]"
proof -
  have ne: "chunks ex_result \<noteq> []"
    by (simp add: ex_result_def)
  have fk: "documentsHavePages ex_store_db"
    by code_simp
  have lp: "lookupPage ex_store_db_after ''Lib'' ''1.0'' ''u'' = Some 1"
    by code_simp
  have again:
    "addDocuments ex_cfg_fts ex_embed (\<lambda>i. False) ex_store_db_after ''Lib'' ''1.0'' 0 ex_result
       = Some (Inr (), ex_store_db_after)"
    by code_simp
  have short:
    "addDocuments ex_cfg (\<lambda>texts. Inr [[1]]) (\<lambda>i. False) ex_store_db ''Lib'' ''1.0'' 0 ex_result
       = Some (Inr (), ex_store_db_one_vector)"
    by code_simp
  have lp1: "lookupPage ex_store_db_one_vector ''Lib'' ''1.0'' ''u'' = Some 1"
    by code_simp
  have emb: "map doc_embedding (docsOfPage ex_store_db_one_vector 1) = [Some [1, 0], None]"
    by code_simp
  from addDocuments_sort_order[OF ex_ingest ne fk] lp
  have "map doc_sort_order (docsOfPage ex_store_db_after 1) = [0..<length (chunks ex_result)]"
    and "map doc_content (docsOfPage ex_store_db_after 1) = map content (chunks ex_result)"
    by (auto simp: ex_result_def)
  then have full: "map doc_sort_order (docsOfPage ex_store_db_after 1) = [0, 1]"
    "map doc_content (docsOfPage ex_store_db_after 1) = [''abcd'', ''efgh'']"
    by (simp_all add: ex_result_def ex_chunk_def ex_chunk2_def upt_rec)
  from addDocuments_sort_order[OF short ne fk] lp1
  have "map doc_sort_order (docsOfPage ex_store_db_one_vector 1)
          = [0..<length (chunks ex_result)]"
    by (auto simp: ex_result_def)
  then have "map doc_sort_order (docsOfPage ex_store_db_one_vector 1) = [0, 1]"
    by (simp add: ex_result_def upt_rec)
  with full ex_ingest ne fk lp again short lp1 emb show ?thesis
    by simp
qed

text \<open>
  Claim C10. When the result has no chunks, \<open>addDocuments\<close> returns at once: whatever the
  configuration, the embedding provider and the driver, the call succeeds and leaves every
  table as it was. Nothing is embedded, no page row is written, no stored chunk is deleted.
\<close>

theorem addDocuments_empty_chunks:
  assumes "chunks result = []"
  shows "addDocuments cfg embedDocuments insertRejected db library version depth result
           = Some (Inr (), db)"
  using assms by (simp add: addDocuments_def)

text \<open>
  The theorem at the sample store with vector search enabled, a provider and a driver that
  reject everything: the stored chunk of page \<open>u\<close> is still there.
\<close>

theorem addDocuments_empty_chunks_witness:
  "chunks ex_empty_result = []
   \<and> addDocuments ex_cfg (\<lambda>texts. Inl NonErrorThrown) (\<lambda>i. True) ex_store_db ''lib'' ''1.0'' 0
        ex_empty_result = Some (Inr (), ex_store_db)
   \<and> docsOfPage ex_store_db 1 = [ex_old_doc]"
proof -
  have e: "chunks ex_empty_result = []"
    by (simp add: ex_empty_result_def)
  have "docsOfPage ex_store_db 1 = [ex_old_doc]"
    by (simp add: docsOfPage_def ex_store_db_def ex_old_doc_def)
  with e addDocuments_empty_chunks[OF e] show ?thesis
    by simp
qed

text \<open>
  Claim C1 on the code: the prior chunks are deleted by a statement that runs before the
  transaction begins, so a failure inside the transaction rolls back the insertions only.
  Here page \<open>u\<close> holds one chunk and is ingested again with two; the driver rejects the
  insertion of the second. The call throws, and the page is left with no chunk at all:
  neither the old set nor the new one.
\<close>

theorem addDocuments_failure_loses_old_chunks:
  "addDocuments ex_cfg_fts ex_embed (\<lambda>i. i = 1) ex_store_db ''lib'' ''1.0'' 0 ex_result
     = Some (Inl (ConnectionError ''Failed to add documents to store''
                    (DriverCause ''SqliteError'')),
             ex_store_db\<lparr>documents := []\<rparr>)
   \<and> map doc_content (docsOfPage ex_store_db 1) = [''old'']
   \<and> map content (chunks ex_result) = [''abcd'', ''efgh'']
   \<and> docsOfPage (ex_store_db\<lparr>documents := []\<rparr>) 1 = []"
  by code_simp

text \<open>
  The order that the ranking of tied candidates relies on is kept by \<open>addDocuments\<close>,
  whatever its outcome: a new chunk row gets an id above every id of the table and is
  appended, and the other statements only delete rows or update them in place.
\<close>

lemma insertDocument_ids_ascending:
  assumes "sorted_wrt (<) (map doc_id (documents db))"
  shows "sorted_wrt (<) (map doc_id (documents (snd (insertDocument db pageId body metadata i))))"
  using assms freshId_gt[of _ "map doc_id (documents db)"]
  by (auto simp: insertDocument_def Let_def sorted_wrt_append)

lemma insertEmbedding_ids:
  "map doc_id (documents (insertEmbedding db vector rowId)) = map doc_id (documents db)"
  by (simp add: insertEmbedding_def comp_def)

lemma insertChunks_ids_ascending:
  "insertChunks cfg rej padded pageId i cs db = Inr db' \<Longrightarrow>
   sorted_wrt (<) (map doc_id (documents db)) \<Longrightarrow>
   sorted_wrt (<) (map doc_id (documents db'))"
proof (induction cs arbitrary: i db)
  case Nil
  then show ?case by simp
next
  case (Cons chunk rest)
  let ?meta = "\<lparr>meta_types = types chunk, meta_level = level (sectionInfo chunk),
                meta_path = path (sectionInfo chunk)\<rparr>"
  obtain rowId db1 where ins: "insertDocument db pageId (content chunk) ?meta i = (rowId, db1)"
    by (cases "insertDocument db pageId (content chunk) ?meta i")
  have asc1: "sorted_wrt (<) (map doc_id (documents db1))"
    using insertDocument_ids_ascending[OF Cons.prems(2), of pageId "content chunk" ?meta i]
    by (simp add: ins)
  have rej: "\<not> rej i"
    using Cons.prems(1) by (auto split: if_splits)
  show ?case
  proof (cases "isVectorSearchEnabled cfg \<and> length padded > 0")
    case True
    let ?db2 = "insertEmbedding db1 (if i < length padded then Some (padded ! i) else None) rowId"
    have "insertChunks cfg rej padded pageId (Suc i) rest ?db2 = Inr db'"
      using Cons.prems(1) rej True by (simp add: ins)
    moreover have "sorted_wrt (<) (map doc_id (documents ?db2))"
      using asc1 by (simp only: insertEmbedding_ids)
    ultimately show ?thesis
      by (rule Cons.IH)
  next
    case False
    have "insertChunks cfg rej padded pageId (Suc i) rest db1 = Inr db'"
      using Cons.prems(1) rej False by (auto simp: ins)
    then show ?thesis
      using asc1 by (rule Cons.IH)
  qed
qed

lemma resolveVersionId_documents:
  "documents (snd (resolveVersionId db library version)) = documents db"
  by (auto simp: resolveVersionId_def Let_def insertLibrary_def insertVersion_def
      split: option.splits)

lemma addDocuments_ids_ascending:
  assumes run: "addDocuments cfg embedDocuments rej db library version depth result
                  = Some (outcome, db')"
    and asc: "sorted_wrt (<) (map doc_id (documents db))"
  shows "sorted_wrt (<) (map doc_id (documents db'))"
proof (cases "length (chunks result) = 0")
  case True
  with run asc show ?thesis
    by (simp add: addDocuments_def)
next
  case False
  let ?emb = "if isVectorSearchEnabled cfg then computeEmbeddings cfg embedDocuments result
              else Some (Inr [])"
  from run False obtain r where emb: "?emb = Some r"
    by (cases ?emb) (simp_all add: addDocuments_def)
  show ?thesis
  proof (cases r)
    case (Inl e)
    with run False emb asc show ?thesis
      by (simp add: addDocuments_def)
  next
    case (Inr padded)
    obtain v db1 where res: "resolveVersionId db library version = (v, db1)"
      by (cases "resolveVersionId db library version")
    have asc1: "sorted_wrt (<) (map doc_id (documents db1))"
      using asc resolveVersionId_documents[of db library version] by (simp add: res)
    show ?thesis
    proof (cases v)
      case (Inl msg)
      with run False emb Inr res asc1 show ?thesis
        by (simp add: addDocuments_def)
    next
      case (Inr versionId)
      let ?db2 = "case getPageId db1 versionId (url result) of
                    Some existingPage \<Rightarrow> snd (deleteDocumentsByPageId db1 existingPage)
                  | None \<Rightarrow> db1"
      let ?body = "transactionBody cfg rej padded versionId depth result"
      have asc2: "sorted_wrt (<) (map doc_id (documents ?db2))"
        using asc1
        by (auto simp: deleteDocumentsByPageId_def sorted_wrt_map sorted_wrt_filter
            split: option.splits)
      have db': "db' = snd (runTransaction ?body ?db2)"
        using run False emb \<open>r = Inr padded\<close> res Inr
        by (auto simp: addDocuments_def Let_def split: prod.splits sum.splits)
      show ?thesis
      proof (cases "?body ?db2")
        case (Inl e)
        then show ?thesis
          using asc2 by (simp add: db' runTransaction_def)
      next
        case (Inr db3)
        then obtain pageId where
          ins: "insertChunks cfg rej padded pageId 0 (chunks result)
                  (insertPage ?db2 versionId (url result) (title result)
                     (orNull (etag result)) (orNull (lastModified result))
                     (orNull (contentType result)) (Some depth)) = Inr db3"
          by (auto simp: transactionBody_def Let_def split: option.splits)
        have "sorted_wrt (<) (map doc_id (documents db3))"
          using insertChunks_ids_ascending[OF ins] asc2 by simp
        then show ?thesis
          using Inr by (simp add: db' runTransaction_def)
      qed
    qed
  qed
qed

section \<open>Properties of removeVersion\<close>

lemma pageMatches_tables:
  "versions a = versions b \<Longrightarrow> libraries a = libraries b \<Longrightarrow>
     pageMatches a name ver = pageMatches b name ver"
  by (simp add: pageMatches_def versionMatches_def fun_eq_iff)

lemma pageMatches_update [simp]:
  "pageMatches (a\<lparr>pages := ps\<rparr>) name ver = pageMatches a name ver"
  "pageMatches (a\<lparr>documents := ds\<rparr>) name ver = pageMatches a name ver"
  by (simp_all add: pageMatches_def versionMatches_def fun_eq_iff)

lemma versionMatches_subset:
  "set (libraries a) \<subseteq> set (libraries b) \<Longrightarrow> versionMatches a name ver v \<Longrightarrow>
     versionMatches b name ver v"
  by (auto simp: versionMatches_def list_ex_iff)

lemma pageMatches_subset:
  "set (versions a) \<subseteq> set (versions b) \<Longrightarrow> set (libraries a) \<subseteq> set (libraries b) \<Longrightarrow>
     pageMatches a name ver p \<Longrightarrow> pageMatches b name ver p"
  unfolding pageMatches_def list_ex_iff
  using versionMatches_subset by blast

lemma getVersionId_Some:
  assumes "getVersionId db name ver = Some (vid, lid)"
  shows "\<exists>v \<in> set (versions db). ver_id v = vid \<and> ver_library_id v = lid
           \<and> versionMatches db name ver v"
proof -
  from assms obtain v where f: "find (versionMatches db name ver) (versions db) = Some v"
    and v: "ver_id v = vid" "ver_library_id v = lid"
    by (auto simp: getVersionId_def)
  from f have "v \<in> set (versions db)" "versionMatches db name ver v"
    by (auto simp: find_Some_iff)
  with v show ?thesis by blast
qed

lemma removeVersion_unfold:
  assumes g: "getVersionId db (toLowerCase library) (toLowerCase version) = Some (vid, lid)"
  shows "removeVersion db library version rm =
     (let db3 = afterVersionDelete db (toLowerCase library) (toLowerCase version) vid;
          del = (rm \<and> countVersionsByLibraryId db3 lid = 0)
      in (\<lparr>documentsDeleted = fst (deleteDocuments db (toLowerCase library) (toLowerCase version)),
           versionDeleted = True, libraryDeleted = del\<rparr>,
          if del then db3\<lparr>libraries := filter (\<lambda>l. lib_id l \<noteq> lid) (libraries db)\<rparr> else db3))"
proof -
  let ?L = "toLowerCase library" and ?V = "toLowerCase version"
  from getVersionId_Some[OF g] obtain v where
    v: "v \<in> set (versions db)" "ver_id v = vid" "ver_library_id v = lid"
       "versionMatches db ?L ?V v"
    by blast
  obtain n db1 where dd: "deleteDocuments db ?L ?V = (n, db1)"
    by (cases "deleteDocuments db ?L ?V")
  have db1: "db1 = db\<lparr>documents := documents db1\<rparr>"
    using dd by (auto simp: deleteDocuments_def Let_def)
  have t1: "pages db1 = pages db" "versions db1 = versions db" "libraries db1 = libraries db"
    using dd by (auto simp: deleteDocuments_def Let_def)
  have pm1: "pageMatches db1 ?L ?V = pageMatches db ?L ?V"
    by (rule pageMatches_tables) (simp_all add: t1)
  let ?dbA = "deletePagesStmt db1 ?L ?V"
  have idem: "deletePagesStmt ?dbA ?L ?V = ?dbA"
    by (simp add: deletePagesStmt_def pm1)
  have dp: "deletePages db library version = (n, ?dbA)"
    by (simp add: deletePages_def Let_def dd)
  have vch: "0 < length (filter (\<lambda>v. ver_id v = vid) (versions db))"
    using v by (auto simp: filter_empty_conv)
  have db3: "snd (deleteVersionById ?dbA vid) = afterVersionDelete db ?L ?V vid"
    apply (subst db1)
    apply (simp add: deleteVersionById_def deletePagesStmt_def afterVersionDelete_def dd t1 pm1)
    done
  have vc: "fst (deleteVersionById ?dbA vid) > 0"
    using vch by (simp add: deleteVersionById_def deletePagesStmt_def t1)
  have lib3: "libraries (afterVersionDelete db ?L ?V vid) = libraries db"
    by (simp add: afterVersionDelete_def)
  have lch: "filter (\<lambda>l. lib_id l = lid) (libraries db) \<noteq> []"
    using v(3,4) by (auto simp: versionMatches_def list_ex_iff filter_empty_conv)
  have dl: "deleteLibraryById (afterVersionDelete db ?L ?V vid) lid =
              (length (filter (\<lambda>l. lib_id l = lid) (libraries db)),
               (afterVersionDelete db ?L ?V vid)\<lparr>libraries := filter (\<lambda>l. lib_id l \<noteq> lid) (libraries db)\<rparr>)"
    by (simp add: deleteLibraryById_def lib3)
  obtain c dbx where dv: "deleteVersionById ?dbA vid = (c, dbx)"
    by (cases "deleteVersionById ?dbA vid")
  with db3 vc have c: "c > 0" and dbx: "dbx = afterVersionDelete db ?L ?V vid"
    by simp_all
  show ?thesis
    unfolding removeVersion_def Let_def g
    by (simp add: dp idem dv c dbx dl lch dd)
qed


text \<open>\<open>removeVersion\<close> only deletes rows, so it keeps the chunk rows in ascending id order.\<close>

lemma removeVersion_ids_ascending:
  assumes "removeVersion db library version removeLibraryIfEmpty = (res, db')"
    and "sorted_wrt (<) (map doc_id (documents db))"
  shows "sorted_wrt (<) (map doc_id (documents db'))"
proof (cases "getVersionId db (toLowerCase library) (toLowerCase version)")
  case None
  with assms show ?thesis
    by (simp add: removeVersion_def Let_def)
next
  case (Some ids)
  obtain versionId libraryId where ids: "ids = (versionId, libraryId)"
    by (cases ids)
  from assms(1) removeVersion_unfold[OF Some[unfolded ids], of removeLibraryIfEmpty]
  have "documents db'
          = documents (snd (deleteDocuments db (toLowerCase library) (toLowerCase version)))"
    by (auto simp: Let_def afterVersionDelete_def split: if_splits)
  then show ?thesis
    using assms(2) by (simp add: deleteDocuments_def Let_def sorted_wrt_map sorted_wrt_filter)
qed

text \<open>
  Claim C8. For an existing (library, version), \<open>removeVersion\<close> deletes the chunks of the
  version's pages, those pages and the version row, and nothing else of these three tables,
  in an order that never leaves a chunk on a deleted page or a page on the deleted version;
  it reports the number of chunks deleted and that the version was deleted;
  \<open>checkDocumentExists\<close> is false afterwards; and the library row is deleted, and reported
  so, exactly when the caller asked for it and the \<open>versions\<close> table is left with no row of
  that library. The \<open>libraries\<close> table loses the row of that library in this case and is
  unchanged otherwise; the row of that library has the (lower-cased) name given.
\<close>

theorem removeVersion_existing:
  assumes "getVersionId db (toLowerCase library) (toLowerCase version)
             = Some (versionId, libraryId)"
    and "removeVersion db library version removeLibraryIfEmpty = (res, db')"
  shows "\<not> checkDocumentExists db' library version
         \<and> versionDeleted res
         \<and> documentsDeleted res
             = length (filter (\<lambda>d. list_ex (\<lambda>p. page_id p = doc_page_id d
                                        \<and> pageMatches db (toLowerCase library)
                                              (toLowerCase version) p) (pages db))
                         (documents db))
         \<and> (libraryDeleted res \<longleftrightarrow>
               removeLibraryIfEmpty
               \<and> \<not> list_ex (\<lambda>v. ver_library_id v = libraryId) (versions db'))
         \<and> libraries db'
             = (if libraryDeleted res
                then filter (\<lambda>l. lib_id l \<noteq> libraryId) (libraries db)
                else libraries db)
         \<and> list_ex (\<lambda>l. lib_id l = libraryId \<and> lib_name l = toLowerCase library)
               (libraries db)
         \<and> (list_ex (\<lambda>l. lib_id l = libraryId) (libraries db') \<longleftrightarrow> \<not> libraryDeleted res)
         \<and> documents db'
             = filter (\<lambda>d. \<not> list_ex (\<lambda>p. page_id p = doc_page_id d
                                        \<and> pageMatches db (toLowerCase library)
                                              (toLowerCase version) p) (pages db))
                 (documents db)
         \<and> pages db'
             = filter (\<lambda>p. \<not> pageMatches db (toLowerCase library) (toLowerCase version) p)
                 (pages db)
         \<and> versions db' = filter (\<lambda>v. ver_id v \<noteq> versionId) (versions db)
         \<and> list_all (\<lambda>p. page_version_id p \<noteq> versionId) (pages db')"
proof -
  let ?L = "toLowerCase library" and ?V = "toLowerCase version"
  let ?sel = "\<lambda>d. list_ex (\<lambda>p. page_id p = doc_page_id d \<and> pageMatches db ?L ?V p) (pages db)"
  let ?db3 = "afterVersionDelete db ?L ?V versionId"
  let ?del = "removeLibraryIfEmpty \<and> countVersionsByLibraryId ?db3 libraryId = 0"
  from getVersionId_Some[OF assms(1)] obtain v where
    v: "v \<in> set (versions db)" "ver_id v = versionId" "ver_library_id v = libraryId"
       "versionMatches db ?L ?V v"
    by blast
  from assms(2) removeVersion_unfold[OF assms(1), of removeLibraryIfEmpty]
  have res: "res = \<lparr>documentsDeleted = fst (deleteDocuments db ?L ?V),
                      versionDeleted = True, libraryDeleted = ?del\<rparr>"
    and db': "db' = (if ?del then ?db3\<lparr>libraries := filter (\<lambda>l. lib_id l \<noteq> libraryId)
                                                   (libraries db)\<rparr> else ?db3)"
    by (simp_all add: Let_def)
  have num: "fst (deleteDocuments db ?L ?V) = length (filter ?sel (documents db))"
    by (simp add: deleteDocuments_def Let_def)
  have docs: "documents db' = filter (\<lambda>d. \<not> ?sel d) (documents db)"
    and pgs: "pages db' = filter (\<lambda>p. \<not> pageMatches db ?L ?V p) (pages db)"
    and vers: "versions db' = filter (\<lambda>v. ver_id v \<noteq> versionId) (versions db)"
    and libs: "libraries db' = (if ?del then filter (\<lambda>l. lib_id l \<noteq> libraryId) (libraries db)
                                else libraries db)"
    unfolding db' by (simp_all add: afterVersionDelete_def deleteDocuments_def Let_def)
  have cnt: "countVersionsByLibraryId ?db3 libraryId = 0
             \<longleftrightarrow> \<not> list_ex (\<lambda>v. ver_library_id v = libraryId) (versions db')"
    by (auto simp: countVersionsByLibraryId_def vers afterVersionDelete_def list_ex_iff
        filter_empty_conv)
  have libex: "list_ex (\<lambda>l. lib_id l = libraryId \<and> lib_name l = ?L) (libraries db)"
    using v(3,4) by (auto simp: versionMatches_def list_ex_iff)
  have sub: "set (versions db') \<subseteq> set (versions db)" "set (libraries db') \<subseteq> set (libraries db)"
    by (auto simp: vers libs)
  have nopage: "\<not> pageMatches db' ?L ?V p" if "p \<in> set (pages db')" for p
    using that pageMatches_subset[OF sub] by (auto simp: pgs)
  have chk: "\<not> checkDocumentExists db' library version"
    using nopage by (auto simp: checkDocumentExists_def checkExists_def Let_def find_None_iff
        list_ex_iff)
  have pv: "list_all (\<lambda>p. page_version_id p \<noteq> versionId) (pages db')"
    using v by (auto simp: pgs list_all_iff pageMatches_def list_ex_iff)
  have libgone: "list_ex (\<lambda>l. lib_id l = libraryId) (libraries db') \<longleftrightarrow> \<not> ?del"
    using libex by (auto simp: libs list_ex_iff)
  have ld: "libraryDeleted res \<longleftrightarrow> ?del"
    by (simp add: res)
  show ?thesis
    unfolding ld using chk pv libgone docs pgs vers libs libex cnt
    by (simp add: res num)
qed

text \<open>
  The theorem at a store whose library \<open>lib\<close> has two versions, beside a second library:
  removing version \<open>1.0\<close> with the option set deletes its chunk and its page and leaves
  version \<open>2.0\<close>, its page, its chunk and both library rows; removing version \<open>2.0\<close> next
  deletes the row of \<open>lib\<close> and leaves that of the other library. And at the sample store,
  whose library has one version: with the option set the library row is deleted, without
  it the row stays.
\<close>

theorem removeVersion_existing_witness:
  "getVersionId ex_two_versions_db (toLowerCase ''Lib'') (toLowerCase ''1.0'') = Some (1, 1)
   \<and> removeVersion ex_two_versions_db ''Lib'' ''1.0'' True
       = (\<lparr>documentsDeleted = 1, versionDeleted = True, libraryDeleted = False\<rparr>,
          ex_one_version_left_db)
   \<and> \<not> checkDocumentExists ex_one_version_left_db ''Lib'' ''1.0''
   \<and> checkDocumentExists ex_one_version_left_db ''Lib'' ''2.0''
   \<and> list_ex (\<lambda>v. ver_library_id v = 1) (versions ex_one_version_left_db)
   \<and> libraries ex_one_version_left_db = libraries ex_two_versions_db
   \<and> getVersionId ex_one_version_left_db (toLowerCase ''Lib'') (toLowerCase ''2.0'')
       = Some (2, 1)
   \<and> removeVersion ex_one_version_left_db ''Lib'' ''2.0'' True
       = (\<lparr>documentsDeleted = 1, versionDeleted = True, libraryDeleted = True\<rparr>,
          \<lparr>libraries = [\<lparr>lib_id = 2, lib_name = ''other''\<rparr>], versions = [], pages = [],
           documents = []\<rparr>)
   \<and> getVersionId ex_store_db (toLowerCase ''Lib'') (toLowerCase ''1.0'') = Some (1, 1)
   \<and> removeVersion ex_store_db ''Lib'' ''1.0'' True
       = (\<lparr>documentsDeleted = 1, versionDeleted = True, libraryDeleted = True\<rparr>,
          \<lparr>libraries = [], versions = [], pages = [], documents = []\<rparr>)
   \<and> \<not> checkDocumentExists \<lparr>libraries = [], versions = [], pages = [], documents = []\<rparr>
         ''Lib'' ''1.0''
   \<and> checkDocumentExists ex_store_db ''Lib'' ''1.0''
   \<and> removeVersion ex_store_db ''Lib'' ''1.0'' False
       = (\<lparr>documentsDeleted = 1, versionDeleted = True, libraryDeleted = False\<rparr>,
          \<lparr>libraries = [\<lparr>lib_id = 1, lib_name = ''lib''\<rparr>], versions = [], pages = [],
           documents = []\<rparr>)"
proof -
  have g2: "getVersionId ex_two_versions_db (toLowerCase ''Lib'') (toLowerCase ''1.0'')
              = Some (1, 1)"
    by code_simp
  have r2: "removeVersion ex_two_versions_db ''Lib'' ''1.0'' True
       = (\<lparr>documentsDeleted = 1, versionDeleted = True, libraryDeleted = False\<rparr>,
          ex_one_version_left_db)"
    by code_simp
  have left: "checkDocumentExists ex_one_version_left_db ''Lib'' ''2.0''"
    "list_ex (\<lambda>v. ver_library_id v = 1) (versions ex_one_version_left_db)"
    "libraries ex_one_version_left_db = libraries ex_two_versions_db"
    by code_simp+
  have g3: "getVersionId ex_one_version_left_db (toLowerCase ''Lib'') (toLowerCase ''2.0'')
              = Some (2, 1)"
    by code_simp
  have r3: "removeVersion ex_one_version_left_db ''Lib'' ''2.0'' True
       = (\<lparr>documentsDeleted = 1, versionDeleted = True, libraryDeleted = True\<rparr>,
          \<lparr>libraries = [\<lparr>lib_id = 2, lib_name = ''other''\<rparr>], versions = [], pages = [],
           documents = []\<rparr>)"
    by code_simp
  have g: "getVersionId ex_store_db (toLowerCase ''Lib'') (toLowerCase ''1.0'') = Some (1, 1)"
    by code_simp
  have r: "removeVersion ex_store_db ''Lib'' ''1.0'' True
       = (\<lparr>documentsDeleted = 1, versionDeleted = True, libraryDeleted = True\<rparr>,
          \<lparr>libraries = [], versions = [], pages = [], documents = []\<rparr>)"
    by code_simp
  have r': "removeVersion ex_store_db ''Lib'' ''1.0'' False
       = (\<lparr>documentsDeleted = 1, versionDeleted = True, libraryDeleted = False\<rparr>,
          \<lparr>libraries = [\<lparr>lib_id = 1, lib_name = ''lib''\<rparr>], versions = [], pages = [],
           documents = []\<rparr>)"
    by code_simp
  have before: "checkDocumentExists ex_store_db ''Lib'' ''1.0''"
    by code_simp
  from removeVersion_existing[OF g2 r2]
  have gone2: "\<not> checkDocumentExists ex_one_version_left_db ''Lib'' ''1.0''"
    by simp
  from removeVersion_existing[OF g r]
  have "\<not> checkDocumentExists \<lparr>libraries = [], versions = [], pages = [], documents = []\<rparr>
          ''Lib'' ''1.0''"
    by simp
  with g2 r2 left g3 r3 gone2 g r r' before show ?thesis
    by simp
qed

end
